theory Spec2Isabelle
  imports Main "HOL-Library.Word"
begin

unbundle bit_operations_syntax

section \<open>Basic types\<close>

text \<open>
  The header \<^verbatim>\<open>types.h\<close> (enumerations, \<^verbatim>\<open>make_piece\<close>, \<^verbatim>\<open>make_square\<close>, the
  operators on the enumerations, the castling constants) is not among the source files.
  The enumerations below follow the numbering the source files rely on:
  \<^verbatim>\<open>piece_to_char = " PNBRQKpnbrqk"\<close> in \<^verbatim>\<open>Position::fen\<close> (indexed by \<^verbatim>\<open>Piece\<close>) and
  \<^verbatim>\<open>piece_str = "  NBRQK"\<close> in \<^verbatim>\<open>Position::san_without_check\<close> (indexed by \<^verbatim>\<open>PieceKind\<close>).
\<close>

datatype color = WHITE | BLACK

datatype piece_kind = NO_PIECE_KIND | PAWN | KNIGHT | BISHOP | ROOK | QUEEN | KING

datatype piece =
    NO_PIECE
  | W_PAWN | W_KNIGHT | W_BISHOP | W_ROOK | W_QUEEN | W_KING
  | B_PAWN | B_KNIGHT | B_BISHOP | B_ROOK | B_QUEEN | B_KING

type_synonym square = nat
type_synonym bitboard = "64 word"
type_synonym castling = nat
type_synonym move = nat
type_synonym moveinfo = nat

text \<open>Modelled from the spec: \<^verbatim>\<open>operator!\<close> on \<^verbatim>\<open>Color\<close> (written \<^verbatim>\<open>!side\<close> in the sources)
  gives the other colour.\<close>

fun color_not :: "color \<Rightarrow> color" where
  "color_not WHITE = BLACK"
| "color_not BLACK = WHITE"

text \<open>Modelled from the spec: \<^verbatim>\<open>make_piece\<close>, \<^verbatim>\<open>get_color\<close>, \<^verbatim>\<open>get_piece_kind\<close> and
  \<^verbatim>\<open>make_piece_kind\<close> of \<^verbatim>\<open>types.h\<close>: a piece is a colour and a kind, twelve values plus
  \<^verbatim>\<open>NO_PIECE\<close>. \<^verbatim>\<open>Position::undo_move\<close> compares \<^verbatim>\<open>make_piece(!side, captured_piece(moveinfo))\<close>
  with \<^verbatim>\<open>NO_PIECE\<close>, so no kind gives no piece; \<^verbatim>\<open>Position::do_move\<close> compares
  \<^verbatim>\<open>make_piece_kind(captured_piece)\<close> with \<^verbatim>\<open>NO_PIECE_KIND\<close>, so no piece gives no kind.\<close>

fun make_piece :: "color \<Rightarrow> piece_kind \<Rightarrow> piece" where
  "make_piece c NO_PIECE_KIND = NO_PIECE"
| "make_piece WHITE PAWN = W_PAWN"
| "make_piece WHITE KNIGHT = W_KNIGHT"
| "make_piece WHITE BISHOP = W_BISHOP"
| "make_piece WHITE ROOK = W_ROOK"
| "make_piece WHITE QUEEN = W_QUEEN"
| "make_piece WHITE KING = W_KING"
| "make_piece BLACK PAWN = B_PAWN"
| "make_piece BLACK KNIGHT = B_KNIGHT"
| "make_piece BLACK BISHOP = B_BISHOP"
| "make_piece BLACK ROOK = B_ROOK"
| "make_piece BLACK QUEEN = B_QUEEN"
| "make_piece BLACK KING = B_KING"

fun get_piece_kind :: "piece \<Rightarrow> piece_kind" where
  "get_piece_kind NO_PIECE = NO_PIECE_KIND"
| "get_piece_kind W_PAWN = PAWN"
| "get_piece_kind W_KNIGHT = KNIGHT"
| "get_piece_kind W_BISHOP = BISHOP"
| "get_piece_kind W_ROOK = ROOK"
| "get_piece_kind W_QUEEN = QUEEN"
| "get_piece_kind W_KING = KING"
| "get_piece_kind B_PAWN = PAWN"
| "get_piece_kind B_KNIGHT = KNIGHT"
| "get_piece_kind B_BISHOP = BISHOP"
| "get_piece_kind B_ROOK = ROOK"
| "get_piece_kind B_QUEEN = QUEEN"
| "get_piece_kind B_KING = KING"

definition make_piece_kind :: "piece \<Rightarrow> piece_kind" where
  "make_piece_kind p = get_piece_kind p"

text \<open>The colour of \<^verbatim>\<open>NO_PIECE\<close> is never read where the assertions of the position hold;
  it is \<^const>\<open>WHITE\<close> here.\<close>

fun get_color :: "piece \<Rightarrow> color" where
  "get_color B_PAWN = BLACK"
| "get_color B_KNIGHT = BLACK"
| "get_color B_BISHOP = BLACK"
| "get_color B_ROOK = BLACK"
| "get_color B_QUEEN = BLACK"
| "get_color B_KING = BLACK"
| "get_color p = WHITE"

text \<open>Modelled from the spec: squares are numbered from A1 = 0 to H8 = 63, rank by rank
  (the FEN parser starts at \<^verbatim>\<open>SQ_A8\<close> and steps back 16 squares at each \<^verbatim>\<open>/\<close>);
  \<^verbatim>\<open>NO_SQUARE\<close> is a value outside the board (\<^verbatim>\<open>create_move\<close> asserts that a
  from-square is not \<^verbatim>\<open>NO_SQUARE\<close>). The functions \<^verbatim>\<open>file\<close> and \<^verbatim>\<open>rank\<close> of the
  sources are \<open>file_of\<close> and \<open>rank_of\<close>.\<close>

definition NO_SQUARE :: square where "NO_SQUARE = 64"

definition make_square :: "nat \<Rightarrow> nat \<Rightarrow> square" where
  "make_square r f = r * 8 + f"

definition file_of :: "square \<Rightarrow> nat" where "file_of sq = sq mod 8"
definition rank_of :: "square \<Rightarrow> nat" where "rank_of sq = sq div 8"

definition FILE_A :: nat where "FILE_A = 0"
definition FILE_C :: nat where "FILE_C = 2"
definition FILE_D :: nat where "FILE_D = 3"
definition FILE_E :: nat where "FILE_E = 4"
definition FILE_F :: nat where "FILE_F = 5"
definition FILE_G :: nat where "FILE_G = 6"
definition FILE_H :: nat where "FILE_H = 7"

definition RANK_1 :: nat where "RANK_1 = 0"
definition RANK_2 :: nat where "RANK_2 = 1"
definition RANK_4 :: nat where "RANK_4 = 3"
definition RANK_5 :: nat where "RANK_5 = 4"
definition RANK_7 :: nat where "RANK_7 = 6"
definition RANK_8 :: nat where "RANK_8 = 7"

definition SQ_A1 :: square where "SQ_A1 = 0"
definition SQ_C1 :: square where "SQ_C1 = 2"
definition SQ_E1 :: square where "SQ_E1 = 4"
definition SQ_G1 :: square where "SQ_G1 = 6"
definition SQ_H1 :: square where "SQ_H1 = 7"
definition SQ_A8 :: square where "SQ_A8 = 56"
definition SQ_C8 :: square where "SQ_C8 = 58"
definition SQ_E8 :: square where "SQ_E8 = 60"
definition SQ_G8 :: square where "SQ_G8 = 62"
definition SQ_H8 :: square where "SQ_H8 = 63"

lemmas square_names =
  NO_SQUARE_def make_square_def file_of_def rank_of_def
  FILE_A_def FILE_C_def FILE_D_def FILE_E_def FILE_F_def FILE_G_def FILE_H_def
  RANK_1_def RANK_2_def RANK_4_def RANK_5_def RANK_7_def RANK_8_def
  SQ_A1_def SQ_C1_def SQ_E1_def SQ_G1_def SQ_H1_def
  SQ_A8_def SQ_C8_def SQ_E8_def SQ_G8_def SQ_H8_def

definition square_bb :: "square \<Rightarrow> bitboard" where
  "square_bb sq = push_bit sq 1"

text \<open>Modelled from the spec: castling rights are a 4-bit set of \<^verbatim>\<open>W_OO\<close>, \<^verbatim>\<open>W_OOO\<close>,
  \<^verbatim>\<open>B_OO\<close>, \<^verbatim>\<open>B_OOO\<close> (\<^verbatim>\<open>create_moveinfo\<close> stores them in four bits). The sources test
  \<^verbatim>\<open>CASTLING_RIGHTS[side] & KING_CASTLING\<close>, so \<^verbatim>\<open>KING_CASTLING\<close> holds the two king-side
  bits and \<^verbatim>\<open>QUEEN_CASTLING\<close> the two queen-side bits. \<^verbatim>\<open>operator!\<close> on \<^verbatim>\<open>Castling\<close>
  (written \<^verbatim>\<open>_castling_rights &= !CASTLING_RIGHTS[side]\<close>) is the complement within the
  four bits, as the spec's rule for clearing rights needs.\<close>

definition NO_CASTLING :: castling where "NO_CASTLING = 0"
definition W_OO :: castling where "W_OO = 1"
definition W_OOO :: castling where "W_OOO = 2"
definition B_OO :: castling where "B_OO = 4"
definition B_OOO :: castling where "B_OOO = 8"
definition KING_CASTLING :: castling where "KING_CASTLING = W_OO OR B_OO"
definition QUEEN_CASTLING :: castling where "QUEEN_CASTLING = W_OOO OR B_OOO"

definition castling_not :: "castling \<Rightarrow> castling" where
  "castling_not c = 15 XOR (c AND 15)"

fun CASTLING_RIGHTS :: "color \<Rightarrow> castling" where
  "CASTLING_RIGHTS WHITE = W_OO OR W_OOO"
| "CASTLING_RIGHTS BLACK = B_OO OR B_OOO"

fun KING_SIDE_ROOK_SQUARE :: "color \<Rightarrow> square" where
  "KING_SIDE_ROOK_SQUARE WHITE = SQ_H1"
| "KING_SIDE_ROOK_SQUARE BLACK = SQ_H8"

fun QUEEN_SIDE_ROOK_SQUARE :: "color \<Rightarrow> square" where
  "QUEEN_SIDE_ROOK_SQUARE WHITE = SQ_A1"
| "QUEEN_SIDE_ROOK_SQUARE BLACK = SQ_A8"

lemmas castling_names =
  NO_CASTLING_def W_OO_def W_OOO_def B_OO_def B_OOO_def KING_CASTLING_def QUEEN_CASTLING_def

section \<open>Move encoding and undo record (\<^verbatim>\<open>types.cpp\<close>)\<close>

text \<open>The numbering of \<^verbatim>\<open>PieceKind\<close> as the sources use it. The value 7 of the three-bit
  field names no piece kind; no move built by \<^verbatim>\<open>create_promotion\<close> carries it.\<close>

fun piece_kind_code :: "piece_kind \<Rightarrow> nat" where
  "piece_kind_code NO_PIECE_KIND = 0"
| "piece_kind_code PAWN = 1"
| "piece_kind_code KNIGHT = 2"
| "piece_kind_code BISHOP = 3"
| "piece_kind_code ROOK = 4"
| "piece_kind_code QUEEN = 5"
| "piece_kind_code KING = 6"

definition PieceKind :: "nat \<Rightarrow> piece_kind" where
  "PieceKind n =
     (if n = 1 then PAWN else if n = 2 then KNIGHT else if n = 3 then BISHOP
      else if n = 4 then ROOK else if n = 5 then QUEEN else if n = 6 then KING
      else NO_PIECE_KIND)"

definition create_move :: "square \<Rightarrow> square \<Rightarrow> move" where
  "create_move f t = push_bit 6 t OR f"



definition move_from :: "move \<Rightarrow> square" where
  "move_from m = m AND 63"

definition move_to :: "move \<Rightarrow> square" where
  "move_to m = drop_bit 6 m AND 63"

definition promotion :: "move \<Rightarrow> piece_kind" where
  "promotion m = PieceKind (drop_bit 12 m AND 7)"

definition castling :: "move \<Rightarrow> castling" where
  "castling m =
     (let p = drop_bit 15 m AND 3
      in if p = 0 then NO_CASTLING else if p = 1 then KING_CASTLING else QUEEN_CASTLING)"

definition create_moveinfo :: "piece_kind \<Rightarrow> castling \<Rightarrow> square \<Rightarrow> bool \<Rightarrow> 8 word \<Rightarrow> moveinfo" where
  "create_moveinfo captured last_c last_ep ep hm =
     (if last_ep \<noteq> NO_SQUARE
      then push_bit 15 (unat hm) OR push_bit 14 (of_bool ep) OR push_bit 13 1 OR
           push_bit 7 last_ep OR push_bit 3 last_c OR piece_kind_code captured
      else push_bit 15 (unat hm) OR push_bit 14 (of_bool ep) OR push_bit 3 last_c OR
           piece_kind_code captured)"

definition captured_piece :: "moveinfo \<Rightarrow> piece_kind" where
  "captured_piece mi = PieceKind (mi AND 7)"

definition last_castling :: "moveinfo \<Rightarrow> castling" where
  "last_castling mi = drop_bit 3 mi AND 15"

definition last_enpassant_square :: "moveinfo \<Rightarrow> square" where
  "last_enpassant_square mi = drop_bit 7 mi AND 63"

definition last_enpassant :: "moveinfo \<Rightarrow> bool" where
  "last_enpassant mi = (drop_bit 13 mi AND 1 \<noteq> 0)"

definition enpassant :: "moveinfo \<Rightarrow> bool" where
  "enpassant mi = (drop_bit 14 mi AND 1 \<noteq> 0)"

definition half_move_counter_of :: "moveinfo \<Rightarrow> 8 word" where
  "half_move_counter_of mi = of_nat (drop_bit 15 mi AND 255)"

section \<open>Zobrist keys (\<^verbatim>\<open>zobrist_hash.cpp\<close>)\<close>

text \<open>The tables of random constants (\<^verbatim>\<open>HASH_PIECE\<close>, \<^verbatim>\<open>HASH_ENPASSANT\<close>, ...) are defined
  in a header that is not among the sources; they are a parameter of every function
  that reads them.\<close>

record zobrist_table =
  HASH_PIECE :: "piece \<Rightarrow> square \<Rightarrow> 64 word"
  HASH_CASTLING_WHITE_SHORT :: "64 word"
  HASH_CASTLING_WHITE_LONG :: "64 word"
  HASH_CASTLING_BLACK_SHORT :: "64 word"
  HASH_CASTLING_BLACK_LONG :: "64 word"
  HASH_ENPASSANT :: "nat \<Rightarrow> 64 word"
  HASH_TURN :: "64 word"

record hashkey =
  piece_key :: "64 word"
  pawn_key :: "64 word"
  enpassant_key :: "64 word"
  castling_key :: "64 word"
  color_key :: "64 word"

definition HashKey :: hashkey where
  "HashKey = \<lparr>piece_key = 0, pawn_key = 0, enpassant_key = 0, castling_key = 0, color_key = 0\<rparr>"

definition get_key :: "hashkey \<Rightarrow> 64 word" where
  "get_key h = piece_key h XOR pawn_key h XOR enpassant_key h XOR castling_key h XOR color_key h"

definition toggle_piece :: "zobrist_table \<Rightarrow> piece \<Rightarrow> square \<Rightarrow> hashkey \<Rightarrow> hashkey" where
  "toggle_piece Z p sq h =
     (if get_piece_kind p = PAWN
      then h\<lparr>pawn_key := pawn_key h XOR HASH_PIECE Z p sq\<rparr>
      else h\<lparr>piece_key := piece_key h XOR HASH_PIECE Z p sq\<rparr>)"

definition hash_move_piece :: "zobrist_table \<Rightarrow> piece \<Rightarrow> square \<Rightarrow> square \<Rightarrow> hashkey \<Rightarrow> hashkey" where
  "hash_move_piece Z p f t h = toggle_piece Z p t (toggle_piece Z p f h)"

definition flip_side :: "zobrist_table \<Rightarrow> hashkey \<Rightarrow> hashkey" where
  "flip_side Z h = h\<lparr>color_key := color_key h XOR HASH_TURN Z\<rparr>"

definition clear_enpassant :: "hashkey \<Rightarrow> hashkey" where
  "clear_enpassant h = h\<lparr>enpassant_key := 0\<rparr>"

definition set_enpassant :: "zobrist_table \<Rightarrow> nat \<Rightarrow> hashkey \<Rightarrow> hashkey" where
  "set_enpassant Z f h = h\<lparr>enpassant_key := HASH_ENPASSANT Z f\<rparr>"

definition clear_castling :: "hashkey \<Rightarrow> hashkey" where
  "clear_castling h = h\<lparr>castling_key := 0\<rparr>"

definition castling_hash :: "zobrist_table \<Rightarrow> castling \<Rightarrow> 64 word" where
  "castling_hash Z c =
     (if c AND W_OO \<noteq> 0 then HASH_CASTLING_WHITE_SHORT Z else 0) XOR
     (if c AND W_OOO \<noteq> 0 then HASH_CASTLING_WHITE_LONG Z else 0) XOR
     (if c AND B_OO \<noteq> 0 then HASH_CASTLING_BLACK_SHORT Z else 0) XOR
     (if c AND B_OOO \<noteq> 0 then HASH_CASTLING_BLACK_LONG Z else 0)"

definition set_castling :: "zobrist_table \<Rightarrow> castling \<Rightarrow> hashkey \<Rightarrow> hashkey" where
  "set_castling Z c h =
     (let h0 = clear_castling h;
          h1 = (if c AND W_OO \<noteq> 0
                then h0\<lparr>castling_key := castling_key h0 XOR HASH_CASTLING_WHITE_SHORT Z\<rparr> else h0);
          h2 = (if c AND W_OOO \<noteq> 0
                then h1\<lparr>castling_key := castling_key h1 XOR HASH_CASTLING_WHITE_LONG Z\<rparr> else h1);
          h3 = (if c AND B_OO \<noteq> 0
                then h2\<lparr>castling_key := castling_key h2 XOR HASH_CASTLING_BLACK_SHORT Z\<rparr> else h2);
          h4 = (if c AND B_OOO \<noteq> 0
                then h3\<lparr>castling_key := castling_key h3 XOR HASH_CASTLING_BLACK_LONG Z\<rparr> else h3)
      in h4)"

section \<open>The position (\<^verbatim>\<open>position.cpp\<close>)\<close>

text \<open>
  The arrays of the class are functions from their index. \<^verbatim>\<open>_piece_position[piece]\<close>
  holds the squares of a piece in its first \<^verbatim>\<open>_piece_count[piece]\<close> entries; the entries
  behind the count are stale. The counters \<^verbatim>\<open>_ply_counter\<close> and \<^verbatim>\<open>_history_counter\<close> are
  integers, \<^verbatim>\<open>_half_move_counter\<close> is a \<^verbatim>\<open>uint8_t\<close>.
\<close>

record position =
  board :: "square \<Rightarrow> piece"
  piece_count :: "piece \<Rightarrow> nat"
  piece_position :: "piece \<Rightarrow> nat \<Rightarrow> square"
  by_piece_kind_bb :: "piece_kind \<Rightarrow> bitboard"
  by_color_bb :: "color \<Rightarrow> bitboard"
  current_side :: color
  castling_rights :: castling
  enpassant_square :: square
  half_move_counter :: "8 word"
  ply_counter :: int
  zobrist_hash :: hashkey
  history :: "nat \<Rightarrow> 64 word"
  history_counter :: int

definition hash :: "position \<Rightarrow> 64 word" where
  "hash P = get_key (zobrist_hash P)"


subsection \<open>\<^verbatim>\<open>Position::operator==\<close>\<close>

definition boards_agree :: "position \<Rightarrow> position \<Rightarrow> bool" where
  "boards_agree P Q = (\<forall>sq \<in> {SQ_A1 ..< Suc SQ_H8}. board P sq = board Q sq)"

definition position_eq :: "position \<Rightarrow> position \<Rightarrow> bool" where
  "position_eq P Q =
     (if get_key (zobrist_hash P) \<noteq> get_key (zobrist_hash Q) then False
      else if current_side P \<noteq> current_side Q then False
      else if castling_rights P \<noteq> castling_rights Q then False
      else if enpassant_square P \<noteq> enpassant_square Q then False
      else boards_agree P Q)"

subsection \<open>Draw detection\<close>

definition rule50 :: "position \<Rightarrow> bool" where
  "rule50 P = (uint (half_move_counter P) \<ge> 100)"

text \<open>The loop of \<^verbatim>\<open>Position::threefold_repetition\<close>: \<open>i\<close> runs from
  \<^verbatim>\<open>_history_counter - 2\<close> down to 0, \<open>count\<close> starts at 1.\<close>

function threefold_loop :: "position \<Rightarrow> int \<Rightarrow> nat \<Rightarrow> bool" where
  "threefold_loop P i count =
     (if i \<ge> 0
      then (if history P (nat i) = get_key (zobrist_hash P)
            then (if Suc count = 3 then True else threefold_loop P (i - 1) (Suc count))
            else threefold_loop P (i - 1) count)
      else False)"
  by pat_completeness auto
termination
  by (relation "measure (\<lambda>(P, i, count). nat (i + 1))") auto

definition threefold_repetition :: "position \<Rightarrow> bool" where
  "threefold_repetition P = threefold_loop P (history_counter P - 2) 1"

text \<open>Modelled from the spec: \<^verbatim>\<open>create_pcv\<close> of \<^verbatim>\<open>types.h\<close> packs the ten counts of the
  pieces other than the kings into one material signature; the signature is the list
  of the ten counts here.\<close>

definition create_pcv ::
  "nat \<Rightarrow> nat \<Rightarrow> nat \<Rightarrow> nat \<Rightarrow> nat \<Rightarrow> nat \<Rightarrow> nat \<Rightarrow> nat \<Rightarrow> nat \<Rightarrow> nat \<Rightarrow> nat list" where
  "create_pcv wp wn wb wr wq bp bn bb br bq = [wp, wn, wb, wr, wq, bp, bn, bb, br, bq]"

definition get_pcv :: "position \<Rightarrow> nat list" where
  "get_pcv P =
     create_pcv (piece_count P W_PAWN) (piece_count P W_KNIGHT) (piece_count P W_BISHOP)
       (piece_count P W_ROOK) (piece_count P W_QUEEN) (piece_count P B_PAWN)
       (piece_count P B_KNIGHT) (piece_count P B_BISHOP) (piece_count P B_ROOK)
       (piece_count P B_QUEEN)"

definition notEnoughMaterialPCV :: "nat list list" where
  "notEnoughMaterialPCV =
     [create_pcv 0 0 0 0 0 0 0 0 0 0,
      create_pcv 0 0 0 0 0 0 1 0 0 0,
      create_pcv 0 0 0 0 0 0 0 1 0 0,
      create_pcv 0 1 0 0 0 0 0 0 0 0,
      create_pcv 0 0 1 0 0 0 0 0 0 0]"

definition enough_material :: "position \<Rightarrow> bool" where
  "enough_material P = (List.find (\<lambda>v. v = get_pcv P) notEnoughMaterialPCV = None)"

definition is_draw :: "position \<Rightarrow> bool" where
  "is_draw P = (rule50 P \<or> threefold_repetition P \<or> \<not> enough_material P)"


subsection \<open>Placing, removing and moving a piece\<close>

text \<open>The assertions of \<^verbatim>\<open>add_piece\<close>, \<^verbatim>\<open>remove_piece\<close> and \<^verbatim>\<open>move_piece\<close> (the target
  square is empty, the source square is not) are the preconditions of the theorems
  below; the functions themselves are the code that runs when the assertions hold.\<close>

definition add_piece :: "zobrist_table \<Rightarrow> piece \<Rightarrow> square \<Rightarrow> position \<Rightarrow> position" where
  "add_piece Z p sq P =
     P\<lparr>board := (board P)(sq := p),
       by_color_bb := (by_color_bb P)(get_color p := by_color_bb P (get_color p) OR square_bb sq),
       by_piece_kind_bb :=
         (by_piece_kind_bb P)(get_piece_kind p := by_piece_kind_bb P (get_piece_kind p) OR square_bb sq),
       piece_position := (piece_position P)(p := (piece_position P p)(piece_count P p := sq)),
       piece_count := (piece_count P)(p := piece_count P p + 1),
       zobrist_hash := toggle_piece Z p sq (zobrist_hash P)\<rparr>"

text \<open>The loop of \<^verbatim>\<open>remove_piece\<close>: the first entry before the last that holds the
  square is overwritten by the last entry.\<close>

function remove_loop :: "(nat \<Rightarrow> square) \<Rightarrow> nat \<Rightarrow> square \<Rightarrow> nat \<Rightarrow> (nat \<Rightarrow> square)" where
  "remove_loop pp n sq i =
     (if int i < int n - 1
      then (if pp i = sq then pp(i := pp (n - 1)) else remove_loop pp n sq (Suc i))
      else pp)"
  by pat_completeness auto
termination
  by (relation "measure (\<lambda>(pp, n, sq, i). n - i)") auto

declare remove_loop.simps [simp del]

definition remove_piece :: "zobrist_table \<Rightarrow> square \<Rightarrow> position \<Rightarrow> position" where
  "remove_piece Z sq P =
     (let p = board P sq
      in P\<lparr>board := (board P)(sq := NO_PIECE),
           by_color_bb := (by_color_bb P)(get_color p := by_color_bb P (get_color p) XOR square_bb sq),
           by_piece_kind_bb :=
             (by_piece_kind_bb P)(get_piece_kind p := by_piece_kind_bb P (get_piece_kind p) XOR square_bb sq),
           piece_position :=
             (piece_position P)(p := remove_loop (piece_position P p) (piece_count P p) sq 0),
           piece_count := (piece_count P)(p := piece_count P p - 1),
           zobrist_hash := toggle_piece Z p sq (zobrist_hash P)\<rparr>)"

function move_loop :: "(nat \<Rightarrow> square) \<Rightarrow> nat \<Rightarrow> square \<Rightarrow> square \<Rightarrow> nat \<Rightarrow> (nat \<Rightarrow> square)" where
  "move_loop pp n f t i =
     (if i < n
      then (if pp i = f then pp(i := t) else move_loop pp n f t (Suc i))
      else pp)"
  by pat_completeness auto
termination
  by (relation "measure (\<lambda>(pp, n, f, t, i). n - i)") auto

declare move_loop.simps [simp del]

definition move_piece :: "zobrist_table \<Rightarrow> square \<Rightarrow> square \<Rightarrow> position \<Rightarrow> position" where
  "move_piece Z f t P =
     (let p = board P f;
          change = square_bb f OR square_bb t
      in P\<lparr>board := (board P)(f := NO_PIECE, t := p),
           by_color_bb := (by_color_bb P)(get_color p := by_color_bb P (get_color p) XOR change),
           by_piece_kind_bb :=
             (by_piece_kind_bb P)(get_piece_kind p := by_piece_kind_bb P (get_piece_kind p) XOR change),
           piece_position :=
             (piece_position P)(p := move_loop (piece_position P p) (piece_count P p) f t 0),
           zobrist_hash := hash_move_piece Z p f t (zobrist_hash P)\<rparr>)"

definition change_current_side :: "zobrist_table \<Rightarrow> position \<Rightarrow> position" where
  "change_current_side Z P =
     P\<lparr>zobrist_hash := flip_side Z (zobrist_hash P), current_side := color_not (current_side P)\<rparr>"

definition set_enpassant_square :: "square \<Rightarrow> position \<Rightarrow> position" where
  "set_enpassant_square sq P = P\<lparr>enpassant_square := sq\<rparr>"

subsection \<open>\<^verbatim>\<open>Position::do_move\<close>\<close>

text \<open>\<^verbatim>\<open>Square(to(move) + (side == WHITE ? -8 : 8))\<close>: the square behind the target.\<close>

definition square_behind :: "color \<Rightarrow> square \<Rightarrow> square" where
  "square_behind side t = nat (int t + (if side = WHITE then - 8 else 8))"

text \<open>The branch of \<^verbatim>\<open>do_move\<close> for a castling move: first the king and the rook,
  then the branch as a whole.\<close>

definition do_move_castling_pieces :: "zobrist_table \<Rightarrow> color \<Rightarrow> move \<Rightarrow> position \<Rightarrow> position" where
  "do_move_castling_pieces Z side m P =
     (let r = (if side = WHITE then RANK_1 else RANK_8)
      in if castling m = KING_CASTLING
         then move_piece Z (make_square r FILE_H) (make_square r FILE_F)
                (move_piece Z (make_square r FILE_E) (make_square r FILE_G) P)
         else move_piece Z (make_square r FILE_A) (make_square r FILE_D)
                (move_piece Z (make_square r FILE_E) (make_square r FILE_C) P))"

definition do_move_castling :: "zobrist_table \<Rightarrow> color \<Rightarrow> move \<Rightarrow> position \<Rightarrow> position" where
  "do_move_castling Z side m P =
     (let P1 = P\<lparr>half_move_counter := 0\<rparr>;
          P2 = do_move_castling_pieces Z side m P1;
          P3 = P2\<lparr>castling_rights := castling_rights P2 AND castling_not (CASTLING_RIGHTS side)\<rparr>;
          P4 = P3\<lparr>zobrist_hash := set_castling Z (castling_rights P3) (zobrist_hash P3)\<rparr>
      in set_enpassant_square NO_SQUARE P4)"

text \<open>The branch for every other move, block by block. First the half-move counter.\<close>

definition do_move_counter :: "piece \<Rightarrow> piece \<Rightarrow> position \<Rightarrow> position" where
  "do_move_counter moved_pc captured_pc P =
     (if get_piece_kind moved_pc \<noteq> PAWN \<and> make_piece_kind captured_pc = NO_PIECE_KIND
      then P\<lparr>half_move_counter := half_move_counter P + 1\<rparr>
      else P\<lparr>half_move_counter := 0\<rparr>)"

text \<open>The en-passant capture: the pawn moves, the pawn behind the target is removed.\<close>

definition do_move_enpassant :: "zobrist_table \<Rightarrow> color \<Rightarrow> move \<Rightarrow> position \<Rightarrow> position" where
  "do_move_enpassant Z side m P =
     remove_piece Z (square_behind side (move_to m)) (move_piece Z (move_from m) (move_to m) P)"

text \<open>The five updates of the castling rights after a move that is neither a castling
  nor an en-passant capture.\<close>

definition update_castling_rights :: "color \<Rightarrow> move \<Rightarrow> piece \<Rightarrow> piece \<Rightarrow> castling \<Rightarrow> castling" where
  "update_castling_rights side m moved_pc captured_pc c0 =
     (let c1 = (if get_piece_kind moved_pc = KING
                then c0 AND castling_not (CASTLING_RIGHTS side) else c0);
          c2 = (if get_piece_kind moved_pc = ROOK \<and> move_from m = KING_SIDE_ROOK_SQUARE side
                then c1 AND castling_not (CASTLING_RIGHTS side AND KING_CASTLING) else c1);
          c3 = (if get_piece_kind moved_pc = ROOK \<and> move_from m = QUEEN_SIDE_ROOK_SQUARE side
                then c2 AND castling_not (CASTLING_RIGHTS side AND QUEEN_CASTLING) else c2);
          c4 = (if make_piece_kind captured_pc = ROOK \<and>
                   move_to m = KING_SIDE_ROOK_SQUARE (color_not side)
                then c3 AND castling_not (CASTLING_RIGHTS (color_not side) AND KING_CASTLING) else c3);
          c5 = (if make_piece_kind captured_pc = ROOK \<and>
                   move_to m = QUEEN_SIDE_ROOK_SQUARE (color_not side)
                then c4 AND castling_not (CASTLING_RIGHTS (color_not side) AND QUEEN_CASTLING) else c4)
      in c5)"

text \<open>The pieces of a capture, a promotion or a quiet move.\<close>

definition do_move_pieces :: "zobrist_table \<Rightarrow> color \<Rightarrow> move \<Rightarrow> piece \<Rightarrow> position \<Rightarrow> position" where
  "do_move_pieces Z side m captured_pc P =
     (let Pa = (if captured_pc \<noteq> NO_PIECE then remove_piece Z (move_to m) P else P)
      in if promotion m \<noteq> NO_PIECE_KIND
         then add_piece Z (make_piece side (promotion m)) (move_to m)
                (remove_piece Z (move_from m) Pa)
         else move_piece Z (move_from m) (move_to m) Pa)"

definition do_move_rights :: "zobrist_table \<Rightarrow> color \<Rightarrow> move \<Rightarrow> piece \<Rightarrow> piece \<Rightarrow> position \<Rightarrow> position" where
  "do_move_rights Z side m moved_pc captured_pc P =
     (let c = update_castling_rights side m moved_pc captured_pc (castling_rights P)
      in P\<lparr>castling_rights := c, zobrist_hash := set_castling Z c (zobrist_hash P)\<rparr>)"

text \<open>The new en-passant square: set behind a pawn that advanced two ranks.\<close>

definition do_move_new_enpassant :: "zobrist_table \<Rightarrow> color \<Rightarrow> move \<Rightarrow> piece \<Rightarrow> position \<Rightarrow> position" where
  "do_move_new_enpassant Z side m moved_pc P =
     (if get_piece_kind moved_pc = PAWN \<and>
         rank_of (move_from m) = (if side = WHITE then RANK_2 else RANK_7) \<and>
         rank_of (move_to m) = (if side = WHITE then RANK_4 else RANK_5)
      then P\<lparr>enpassant_square := square_behind side (move_to m),
             zobrist_hash := set_enpassant Z (file_of (square_behind side (move_to m))) (zobrist_hash P)\<rparr>
      else set_enpassant_square NO_SQUARE P)"

text \<open>The branch as a whole; it returns the flag \<^verbatim>\<open>enpassant\<close> with the position.\<close>

definition do_move_normal :: "zobrist_table \<Rightarrow> color \<Rightarrow> move \<Rightarrow> position \<Rightarrow> bool \<times> position" where
  "do_move_normal Z side m P =
     (let moved_pc = board P (move_from m);
          captured_pc = board P (move_to m);
          P1 = do_move_counter moved_pc captured_pc P;
          ep = (get_piece_kind moved_pc = PAWN \<and> move_to m = enpassant_square P1);
          P2 = (if ep then do_move_enpassant Z side m P1
                else do_move_rights Z side m moved_pc captured_pc
                       (do_move_pieces Z side m captured_pc P1))
      in (ep, do_move_new_enpassant Z side m moved_pc P2))"

text \<open>The head of \<^verbatim>\<open>do_move\<close> (the side, the ply counter, the en-passant subkey) and
  its tail (the history).\<close>

definition do_move_begin :: "zobrist_table \<Rightarrow> position \<Rightarrow> position" where
  "do_move_begin Z P =
     (let P1 = change_current_side Z P;
          P2 = P1\<lparr>ply_counter := ply_counter P1 + 1\<rparr>
      in P2\<lparr>zobrist_hash := clear_enpassant (zobrist_hash P2)\<rparr>)"

definition push_history :: "position \<Rightarrow> position" where
  "push_history P =
     P\<lparr>history := (history P)(nat (history_counter P) := get_key (zobrist_hash P)),
       history_counter := history_counter P + 1\<rparr>"

definition do_move :: "zobrist_table \<Rightarrow> move \<Rightarrow> position \<Rightarrow> moveinfo \<times> position" where
  "do_move Z m P =
     (let side = current_side P;
          prev_castling = castling_rights P;
          prev_enpassant_sq = enpassant_square P;
          hm_counter = half_move_counter P;
          P3 = do_move_begin Z P;
          captured = (if castling m \<noteq> NO_CASTLING then NO_PIECE_KIND
                      else make_piece_kind (board P3 (move_to m)));
          r = (if castling m \<noteq> NO_CASTLING then (False, do_move_castling Z side m P3)
               else do_move_normal Z side m P3)
      in (create_moveinfo captured prev_castling prev_enpassant_sq (fst r) hm_counter,
          push_history (snd r)))"

subsection \<open>\<^verbatim>\<open>Position::undo_move\<close>\<close>

text \<open>The head of \<^verbatim>\<open>undo_move\<close>: the side, the ply counter, and the castling rights,
  en-passant square and half-move counter of the undo record.\<close>

definition undo_move_state :: "zobrist_table \<Rightarrow> moveinfo \<Rightarrow> position \<Rightarrow> position" where
  "undo_move_state Z mi P =
     (let P1 = change_current_side Z P;
          P2 = P1\<lparr>ply_counter := ply_counter P1 - 1\<rparr>;
          P3 = P2\<lparr>castling_rights := last_castling mi\<rparr>;
          P4 = P3\<lparr>zobrist_hash := set_castling Z (castling_rights P3) (zobrist_hash P3)\<rparr>;
          P5 = set_enpassant_square (last_enpassant_square mi) P4;
          P6 = (if enpassant_square P5 = NO_SQUARE
                then P5\<lparr>zobrist_hash := clear_enpassant (zobrist_hash P5)\<rparr>
                else P5\<lparr>zobrist_hash := set_enpassant Z (file_of (enpassant_square P5)) (zobrist_hash P5)\<rparr>)
      in P6\<lparr>half_move_counter := half_move_counter_of mi\<rparr>)"

definition undo_move_castling :: "zobrist_table \<Rightarrow> color \<Rightarrow> move \<Rightarrow> position \<Rightarrow> position" where
  "undo_move_castling Z side m P =
     (let r = (if side = WHITE then RANK_1 else RANK_8)
      in if castling m = KING_CASTLING
         then move_piece Z (make_square r FILE_F) (make_square r FILE_H)
                (move_piece Z (make_square r FILE_G) (make_square r FILE_E) P)
         else move_piece Z (make_square r FILE_D) (make_square r FILE_A)
                (move_piece Z (make_square r FILE_C) (make_square r FILE_E) P))"

definition undo_move_normal :: "zobrist_table \<Rightarrow> color \<Rightarrow> move \<Rightarrow> moveinfo \<Rightarrow> position \<Rightarrow> position" where
  "undo_move_normal Z side m mi P =
     (let captured = make_piece (color_not side) (captured_piece mi);
          Pa = (if enpassant mi
                then add_piece Z (make_piece (color_not side) PAWN) (square_behind side (move_to m)) P
                else P);
          Pb = (if promotion m \<noteq> NO_PIECE_KIND
                then remove_piece Z (move_to m) (add_piece Z (make_piece side PAWN) (move_from m) Pa)
                else move_piece Z (move_to m) (move_from m) Pa)
      in if captured \<noteq> NO_PIECE then add_piece Z captured (move_to m) Pb else Pb)"

definition undo_move :: "zobrist_table \<Rightarrow> move \<Rightarrow> moveinfo \<Rightarrow> position \<Rightarrow> position" where
  "undo_move Z m mi P =
     (let P7 = undo_move_state Z mi P;
          side = current_side P7;
          P8 = (if castling m \<noteq> NO_CASTLING then undo_move_castling Z side m P7
                else undo_move_normal Z side m mi P7)
      in P8\<lparr>history_counter := history_counter P8 - 1\<rparr>)"

subsection \<open>Null moves\<close>




subsection \<open>\<^verbatim>\<open>HashKey::init\<close> and \<^verbatim>\<open>hash_position\<close>\<close>

text \<open>\<^verbatim>\<open>for (int i = 0; i < position.no_pieces(piece); ++i) key ^= HASH_PIECE[piece][position.piece_position(piece, i)]\<close>\<close>

definition xor_piece_list :: "zobrist_table \<Rightarrow> position \<Rightarrow> piece \<Rightarrow> 64 word \<Rightarrow> 64 word" where
  "xor_piece_list Z P p key =
     fold (\<lambda>i k. k XOR HASH_PIECE Z p (piece_position P p i)) [0 ..< piece_count P p] key"

definition hashkey_init :: "zobrist_table \<Rightarrow> position \<Rightarrow> hashkey \<Rightarrow> hashkey" where
  "hashkey_init Z P h =
     (let h1 = (if current_side P = WHITE then h\<lparr>color_key := color_key h XOR HASH_TURN Z\<rparr> else h);
          h2 = h1\<lparr>pawn_key :=
                 fold (\<lambda>c k. xor_piece_list Z P (make_piece c PAWN) k) [WHITE, BLACK] (pawn_key h1)\<rparr>;
          h3 = h2\<lparr>piece_key :=
                 fold (\<lambda>c k. fold (\<lambda>pk k'. xor_piece_list Z P (make_piece c pk) k')
                                [KNIGHT, BISHOP, ROOK, QUEEN, KING] k)
                   [WHITE, BLACK] (piece_key h2)\<rparr>;
          h4 = set_castling Z (castling_rights P) h3
      in if enpassant_square P \<noteq> NO_SQUARE
         then set_enpassant Z (file_of (enpassant_square P)) h4
         else h4)"






definition all_pieces :: "piece list" where
  "all_pieces = [W_PAWN, W_KNIGHT, W_BISHOP, W_ROOK, W_QUEEN, W_KING,
                 B_PAWN, B_KNIGHT, B_BISHOP, B_ROOK, B_QUEEN, B_KING]"


subsection \<open>\<^verbatim>\<open>Position::Position(std::string fen)\<close>\<close>

text \<open>The state after the \<^verbatim>\<open>fill_n\<close> calls that open both constructors. The arrays
  \<^verbatim>\<open>_piece_position\<close> and \<^verbatim>\<open>_history\<close> and the counters are not initialised there; they
  are zero here, and every entry is written before it is read.\<close>

definition cleared_position :: position where
  "cleared_position =
     \<lparr>board = (\<lambda>_. NO_PIECE), piece_count = (\<lambda>_. 0), piece_position = (\<lambda>_ _. 0),
      by_piece_kind_bb = (\<lambda>_. 0), by_color_bb = (\<lambda>_. 0), current_side = WHITE,
      castling_rights = NO_CASTLING, enpassant_square = NO_SQUARE, half_move_counter = 0,
      ply_counter = 0, zobrist_hash = HashKey, history = (\<lambda>_. 0), history_counter = 0\<rparr>"

text \<open>The four statements that place a piece in the constructors.\<close>

definition put_piece :: "piece \<Rightarrow> square \<Rightarrow> position \<Rightarrow> position" where
  "put_piece p sq P =
     P\<lparr>board := (board P)(sq := p),
       by_color_bb := (by_color_bb P)(get_color p := by_color_bb P (get_color p) OR square_bb sq),
       by_piece_kind_bb :=
         (by_piece_kind_bb P)(get_piece_kind p := by_piece_kind_bb P (get_piece_kind p) OR square_bb sq),
       piece_position := (piece_position P)(p := (piece_position P p)(piece_count P p := sq)),
       piece_count := (piece_count P)(p := piece_count P p + 1)\<rparr>"

text \<open>\<^verbatim>\<open>char_to_piece[c]\<close>: a \<^verbatim>\<open>std::map\<close> read with \<^verbatim>\<open>operator[]\<close> gives the
  value-initialised \<^verbatim>\<open>Piece\<close>, which is \<^verbatim>\<open>NO_PIECE\<close>, for a character that is not a key.\<close>

definition char_to_piece :: "char \<Rightarrow> piece" where
  "char_to_piece c =
     (if c = CHR ''P'' then W_PAWN else if c = CHR ''N'' then W_KNIGHT
      else if c = CHR ''B'' then W_BISHOP else if c = CHR ''R'' then W_ROOK
      else if c = CHR ''Q'' then W_QUEEN else if c = CHR ''K'' then W_KING
      else if c = CHR ''p'' then B_PAWN else if c = CHR ''n'' then B_KNIGHT
      else if c = CHR ''b'' then B_BISHOP else if c = CHR ''r'' then B_ROOK
      else if c = CHR ''q'' then B_QUEEN else if c = CHR ''k'' then B_KING
      else NO_PIECE)"

text \<open>The loop over the first field. The square is an integer, since \<^verbatim>\<open>square -= 16\<close>
  can leave the board on a malformed field.\<close>

fun fen_board :: "string \<Rightarrow> int \<Rightarrow> position \<Rightarrow> position" where
  "fen_board [] sq P = P"
| "fen_board (c # cs) sq P =
     (if c = CHR ''/'' then fen_board cs (sq - 16) P
      else if (48 :: nat) \<le> of_char c \<and> of_char c \<le> (57 :: nat)
      then fen_board cs (sq + (int (of_char c) - 48)) P
      else fen_board cs (sq + 1) (put_piece (char_to_piece c) (nat sq) P))"

fun fen_castling :: "string \<Rightarrow> castling \<Rightarrow> castling" where
  "fen_castling [] r = r"
| "fen_castling (c # cs) r =
     fen_castling cs
       (if c = CHR ''K'' then r OR W_OO else if c = CHR ''Q'' then r OR W_OOO
        else if c = CHR ''k'' then r OR B_OO else if c = CHR ''q'' then r OR B_OOO else r)"

text \<open>\<^verbatim>\<open>notationToSquare\<close> reads the first two characters of its argument.\<close>

definition notationToSquare :: "string \<Rightarrow> square" where
  "notationToSquare s =
     nat (int (make_square 0 0) + (int (of_char (s ! 1)) - 49) * 8 + (int (of_char (s ! 0)) - 97))"

text \<open>\<^verbatim>\<open>stream >> token\<close> on a \<^verbatim>\<open>std::istringstream\<close>: white space is skipped, then the
  characters up to the next white space are the token. The stream is the text that is
  left to read.\<close>

definition is_space :: "char \<Rightarrow> bool" where
  "is_space c = (c = CHR '' '' \<or> (9 :: nat) \<le> of_char c \<and> of_char c \<le> (13 :: nat))"

definition read_token :: "string \<Rightarrow> string \<times> string" where
  "read_token s =
     (let s' = dropWhile is_space s
      in (takeWhile (\<lambda>c. \<not> is_space c) s', dropWhile (\<lambda>c. \<not> is_space c) s'))"

definition is_digit :: "char \<Rightarrow> bool" where
  "is_digit c = ((48 :: nat) \<le> of_char c \<and> of_char c \<le> (57 :: nat))"

definition digits_value :: "string \<Rightarrow> nat" where
  "digits_value ds = fold (\<lambda>c n. 10 * n + (of_char c - 48)) ds 0"

text \<open>\<^verbatim>\<open>stream >> n\<close> for an integer: white space is skipped, an optional sign and the
  decimal digits are read. Where no digit follows, the extraction fails and stores 0.\<close>

definition read_int :: "string \<Rightarrow> int \<times> string" where
  "read_int s =
     (let s1 = dropWhile is_space s;
          neg = (s1 \<noteq> [] \<and> hd s1 = CHR ''-'');
          s2 = (if s1 \<noteq> [] \<and> (hd s1 = CHR ''-'' \<or> hd s1 = CHR ''+'') then tl s1 else s1);
          ds = takeWhile is_digit s2;
          v = int (digits_value ds)
      in if ds = [] then (0, s1) else (if neg then - v else v, dropWhile is_digit s2))"

definition Position_fen :: "zobrist_table \<Rightarrow> string \<Rightarrow> position" where
  "Position_fen Z fen =
     (let P0 = set_enpassant_square NO_SQUARE cleared_position;
          (token1, stream1) = read_token fen;
          P1 = fen_board token1 (int SQ_A8) P0;
          (token2, stream2) = read_token stream1;
          P2 = P1\<lparr>current_side := (if token2 = ''w'' then WHITE else BLACK)\<rparr>;
          (token3, stream3) = read_token stream2;
          P3 = P2\<lparr>castling_rights := fen_castling token3 (castling_rights P2)\<rparr>;
          (token4, stream4) = read_token stream3;
          P4 = set_enpassant_square (if token4 = ''-'' then NO_SQUARE else notationToSquare token4) P3;
          (n1, stream5) = read_int stream4;
          P5 = P4\<lparr>half_move_counter := word_of_int n1\<rparr>;
          (n2, stream6) = read_int stream5;
          P6 = P5\<lparr>ply_counter := 2 * n2 - 1 + (if current_side P5 = BLACK then 1 else 0)\<rparr>;
          P7 = P6\<lparr>zobrist_hash := hashkey_init Z P6 (zobrist_hash P6)\<rparr>;
          P8 = P7\<lparr>history := (history P7)(0 := get_key (zobrist_hash P7))\<rparr>
      in P8\<lparr>history_counter := 1\<rparr>)"

definition STARTPOS_FEN :: string where
  "STARTPOS_FEN = ''rnbqkbnr/pppppppp/8/8/8/8/PPPPPPPP/RNBQKBNR w KQkq - 0 1''"


section \<open>Sample inputs\<close>

text \<open>A table of constants for the evaluation of the functions at concrete positions.\<close>

definition sample_table :: zobrist_table where
  "sample_table =
     \<lparr>HASH_PIECE = (\<lambda>p sq. of_nat (Suc sq)),
      HASH_CASTLING_WHITE_SHORT = 0x100, HASH_CASTLING_WHITE_LONG = 0x200,
      HASH_CASTLING_BLACK_SHORT = 0x400, HASH_CASTLING_BLACK_LONG = 0x800,
      HASH_ENPASSANT = (\<lambda>f. 0x1000 + of_nat f), HASH_TURN = 0x10000\<rparr>"

definition CASTLING_FEN :: string where
  "CASTLING_FEN = ''r3k2r/8/8/8/8/8/8/R3K2R w KQkq - 0 1''"


definition BARE_KINGS_FEN :: string where
  "BARE_KINGS_FEN = ''8/8/8/8/8/8/4k3/4K3 w - - 0 1''"


text \<open>The first four tokens of a FEN string and the text behind them.\<close>

definition fen_token1 :: "string \<Rightarrow> string" where
  "fen_token1 fen = fst (read_token fen)"

definition fen_token2 :: "string \<Rightarrow> string" where
  "fen_token2 fen = fst (read_token (snd (read_token fen)))"

definition fen_token3 :: "string \<Rightarrow> string" where
  "fen_token3 fen = fst (read_token (snd (read_token (snd (read_token fen)))))"

definition fen_token4 :: "string \<Rightarrow> string" where
  "fen_token4 fen = fst (read_token (snd (read_token (snd (read_token (snd (read_token fen)))))))"

definition fen_counters :: "string \<Rightarrow> string" where
  "fen_counters fen = snd (read_token (snd (read_token (snd (read_token (snd (read_token fen)))))))"

section \<open>Castling rights: the predicates of the claim\<close>


definition right_color :: "castling \<Rightarrow> color" where
  "right_color r = (if r = W_OO \<or> r = W_OOO then WHITE else BLACK)"

definition king_home :: "color \<Rightarrow> square" where
  "king_home c = (if c = WHITE then SQ_E1 else SQ_E8)"

definition rook_home :: "castling \<Rightarrow> square" where
  "rook_home r =
     (if r = W_OO then SQ_H1 else if r = W_OOO then SQ_A1 else if r = B_OO then SQ_H8 else SQ_A8)"






section \<open>Frame lemmas: the fields a step leaves alone\<close>

lemma move_piece_frame [simp]:
  "castling_rights (move_piece Z f t P) = castling_rights P"
  "half_move_counter (move_piece Z f t P) = half_move_counter P"
  "enpassant_square (move_piece Z f t P) = enpassant_square P"
  "current_side (move_piece Z f t P) = current_side P"
  "ply_counter (move_piece Z f t P) = ply_counter P"
  "history (move_piece Z f t P) = history P"
  "history_counter (move_piece Z f t P) = history_counter P"
  "piece_count (move_piece Z f t P) = piece_count P"
  by (simp_all add: move_piece_def Let_def)

lemma remove_piece_frame [simp]:
  "castling_rights (remove_piece Z sq P) = castling_rights P"
  "half_move_counter (remove_piece Z sq P) = half_move_counter P"
  "enpassant_square (remove_piece Z sq P) = enpassant_square P"
  "current_side (remove_piece Z sq P) = current_side P"
  "ply_counter (remove_piece Z sq P) = ply_counter P"
  "history (remove_piece Z sq P) = history P"
  "history_counter (remove_piece Z sq P) = history_counter P"
  by (simp_all add: remove_piece_def Let_def)

lemma add_piece_frame [simp]:
  "castling_rights (add_piece Z p sq P) = castling_rights P"
  "half_move_counter (add_piece Z p sq P) = half_move_counter P"
  "enpassant_square (add_piece Z p sq P) = enpassant_square P"
  "current_side (add_piece Z p sq P) = current_side P"
  "ply_counter (add_piece Z p sq P) = ply_counter P"
  "history (add_piece Z p sq P) = history P"
  "history_counter (add_piece Z p sq P) = history_counter P"
  by (simp_all add: add_piece_def)

lemma change_current_side_frame [simp]:
  "castling_rights (change_current_side Z P) = castling_rights P"
  "half_move_counter (change_current_side Z P) = half_move_counter P"
  "enpassant_square (change_current_side Z P) = enpassant_square P"
  "current_side (change_current_side Z P) = color_not (current_side P)"
  "ply_counter (change_current_side Z P) = ply_counter P"
  "history (change_current_side Z P) = history P"
  "history_counter (change_current_side Z P) = history_counter P"
  "board (change_current_side Z P) = board P"
  "piece_count (change_current_side Z P) = piece_count P"
  "piece_position (change_current_side Z P) = piece_position P"
  "by_color_bb (change_current_side Z P) = by_color_bb P"
  "by_piece_kind_bb (change_current_side Z P) = by_piece_kind_bb P"
  by (simp_all add: change_current_side_def)

lemma do_move_begin_frame [simp]:
  "castling_rights (do_move_begin Z P) = castling_rights P"
  "half_move_counter (do_move_begin Z P) = half_move_counter P"
  "enpassant_square (do_move_begin Z P) = enpassant_square P"
  "current_side (do_move_begin Z P) = color_not (current_side P)"
  "ply_counter (do_move_begin Z P) = ply_counter P + 1"
  "history (do_move_begin Z P) = history P"
  "history_counter (do_move_begin Z P) = history_counter P"
  "board (do_move_begin Z P) = board P"
  "piece_count (do_move_begin Z P) = piece_count P"
  "piece_position (do_move_begin Z P) = piece_position P"
  "by_color_bb (do_move_begin Z P) = by_color_bb P"
  "by_piece_kind_bb (do_move_begin Z P) = by_piece_kind_bb P"
  by (simp_all add: do_move_begin_def Let_def)

lemma do_move_castling_pieces_frame [simp]:
  "castling_rights (do_move_castling_pieces Z side m P) = castling_rights P"
  "half_move_counter (do_move_castling_pieces Z side m P) = half_move_counter P"
  "enpassant_square (do_move_castling_pieces Z side m P) = enpassant_square P"
  "current_side (do_move_castling_pieces Z side m P) = current_side P"
  "ply_counter (do_move_castling_pieces Z side m P) = ply_counter P"
  "history (do_move_castling_pieces Z side m P) = history P"
  "history_counter (do_move_castling_pieces Z side m P) = history_counter P"
  "piece_count (do_move_castling_pieces Z side m P) = piece_count P"
  by (simp_all add: do_move_castling_pieces_def Let_def)

lemma do_move_castling_fields [simp]:
  "castling_rights (do_move_castling Z side m P) = castling_rights P AND castling_not (CASTLING_RIGHTS side)"
  "half_move_counter (do_move_castling Z side m P) = 0"
  "enpassant_square (do_move_castling Z side m P) = NO_SQUARE"
  "current_side (do_move_castling Z side m P) = current_side P"
  "ply_counter (do_move_castling Z side m P) = ply_counter P"
  "history (do_move_castling Z side m P) = history P"
  "history_counter (do_move_castling Z side m P) = history_counter P"
  by (simp_all add: do_move_castling_def Let_def set_enpassant_square_def)

lemma do_move_counter_fields [simp]:
  "castling_rights (do_move_counter a b P) = castling_rights P"
  "half_move_counter (do_move_counter a b P) =
     (if get_piece_kind a \<noteq> PAWN \<and> b = NO_PIECE then half_move_counter P + 1 else 0)"
  "enpassant_square (do_move_counter a b P) = enpassant_square P"
  "current_side (do_move_counter a b P) = current_side P"
  "ply_counter (do_move_counter a b P) = ply_counter P"
  "history (do_move_counter a b P) = history P"
  "history_counter (do_move_counter a b P) = history_counter P"
  "board (do_move_counter a b P) = board P"
  by (cases b; simp add: do_move_counter_def make_piece_kind_def)+

lemma do_move_enpassant_frame [simp]:
  "castling_rights (do_move_enpassant Z side m P) = castling_rights P"
  "half_move_counter (do_move_enpassant Z side m P) = half_move_counter P"
  "enpassant_square (do_move_enpassant Z side m P) = enpassant_square P"
  "current_side (do_move_enpassant Z side m P) = current_side P"
  "ply_counter (do_move_enpassant Z side m P) = ply_counter P"
  "history (do_move_enpassant Z side m P) = history P"
  "history_counter (do_move_enpassant Z side m P) = history_counter P"
  by (simp_all add: do_move_enpassant_def)

lemma do_move_pieces_frame [simp]:
  "castling_rights (do_move_pieces Z side m c P) = castling_rights P"
  "half_move_counter (do_move_pieces Z side m c P) = half_move_counter P"
  "enpassant_square (do_move_pieces Z side m c P) = enpassant_square P"
  "current_side (do_move_pieces Z side m c P) = current_side P"
  "ply_counter (do_move_pieces Z side m c P) = ply_counter P"
  "history (do_move_pieces Z side m c P) = history P"
  "history_counter (do_move_pieces Z side m c P) = history_counter P"
  by (simp_all add: do_move_pieces_def Let_def)

lemma do_move_rights_fields [simp]:
  "castling_rights (do_move_rights Z side m a b P) = update_castling_rights side m a b (castling_rights P)"
  "half_move_counter (do_move_rights Z side m a b P) = half_move_counter P"
  "enpassant_square (do_move_rights Z side m a b P) = enpassant_square P"
  "current_side (do_move_rights Z side m a b P) = current_side P"
  "ply_counter (do_move_rights Z side m a b P) = ply_counter P"
  "history (do_move_rights Z side m a b P) = history P"
  "history_counter (do_move_rights Z side m a b P) = history_counter P"
  "board (do_move_rights Z side m a b P) = board P"
  "piece_count (do_move_rights Z side m a b P) = piece_count P"
  "piece_position (do_move_rights Z side m a b P) = piece_position P"
  "by_color_bb (do_move_rights Z side m a b P) = by_color_bb P"
  "by_piece_kind_bb (do_move_rights Z side m a b P) = by_piece_kind_bb P"
  by (simp_all add: do_move_rights_def Let_def)

lemma do_move_new_enpassant_fields [simp]:
  "castling_rights (do_move_new_enpassant Z side m a P) = castling_rights P"
  "half_move_counter (do_move_new_enpassant Z side m a P) = half_move_counter P"
  "current_side (do_move_new_enpassant Z side m a P) = current_side P"
  "ply_counter (do_move_new_enpassant Z side m a P) = ply_counter P"
  "history (do_move_new_enpassant Z side m a P) = history P"
  "history_counter (do_move_new_enpassant Z side m a P) = history_counter P"
  "board (do_move_new_enpassant Z side m a P) = board P"
  "piece_count (do_move_new_enpassant Z side m a P) = piece_count P"
  "piece_position (do_move_new_enpassant Z side m a P) = piece_position P"
  "by_color_bb (do_move_new_enpassant Z side m a P) = by_color_bb P"
  "by_piece_kind_bb (do_move_new_enpassant Z side m a P) = by_piece_kind_bb P"
  by (simp_all add: do_move_new_enpassant_def set_enpassant_square_def)

lemma do_move_normal_fields:
  "fst (do_move_normal Z side m P) =
     (get_piece_kind (board P (move_from m)) = PAWN \<and> move_to m = enpassant_square P)"
  "castling_rights (snd (do_move_normal Z side m P)) =
     (if get_piece_kind (board P (move_from m)) = PAWN \<and> move_to m = enpassant_square P
      then castling_rights P
      else update_castling_rights side m (board P (move_from m)) (board P (move_to m)) (castling_rights P))"
  "half_move_counter (snd (do_move_normal Z side m P)) =
     (if get_piece_kind (board P (move_from m)) \<noteq> PAWN \<and> board P (move_to m) = NO_PIECE
      then half_move_counter P + 1 else 0)"
  "current_side (snd (do_move_normal Z side m P)) = current_side P"
  "ply_counter (snd (do_move_normal Z side m P)) = ply_counter P"
  "history (snd (do_move_normal Z side m P)) = history P"
  "history_counter (snd (do_move_normal Z side m P)) = history_counter P"
  by (simp_all add: do_move_normal_def Let_def)

lemma push_history_fields [simp]:
  "castling_rights (push_history P) = castling_rights P"
  "half_move_counter (push_history P) = half_move_counter P"
  "enpassant_square (push_history P) = enpassant_square P"
  "current_side (push_history P) = current_side P"
  "ply_counter (push_history P) = ply_counter P"
  "history_counter (push_history P) = history_counter P + 1"
  "board (push_history P) = board P"
  "piece_count (push_history P) = piece_count P"
  "piece_position (push_history P) = piece_position P"
  "by_color_bb (push_history P) = by_color_bb P"
  "by_piece_kind_bb (push_history P) = by_piece_kind_bb P"
  "zobrist_hash (push_history P) = zobrist_hash P"
  by (simp_all add: push_history_def)


lemma do_move_history_counter:
  "history_counter (snd (do_move Z m P)) = history_counter P + 1"
  by (simp add: do_move_def Let_def do_move_normal_fields)

lemma do_move_castling_rights:
  "castling_rights (snd (do_move Z m P)) =
     (if castling m \<noteq> NO_CASTLING
      then castling_rights P AND castling_not (CASTLING_RIGHTS (current_side P))
      else if get_piece_kind (board P (move_from m)) = PAWN \<and> move_to m = enpassant_square P
           then castling_rights P
           else update_castling_rights (current_side P) m (board P (move_from m))
                  (board P (move_to m)) (castling_rights P))"
  by (simp add: do_move_def Let_def do_move_normal_fields)






lemma right_color_simps [simp]:
  "right_color W_OO = WHITE" "right_color W_OOO = WHITE"
  "right_color B_OO = BLACK" "right_color B_OOO = BLACK"
  by (simp_all add: right_color_def castling_names)

lemma rook_home_simps [simp]:
  "rook_home W_OO = SQ_H1" "rook_home W_OOO = SQ_A1"
  "rook_home B_OO = SQ_H8" "rook_home B_OOO = SQ_A8"
  by (simp_all add: rook_home_def castling_names)

lemma king_home_simps [simp]:
  "king_home WHITE = SQ_E1" "king_home BLACK = SQ_E8"
  by (simp_all add: king_home_def)

lemma rook_squares_distinct [simp]:
  "SQ_H1 \<noteq> SQ_A1" "SQ_A1 \<noteq> SQ_H1" "SQ_H8 \<noteq> SQ_A8" "SQ_A8 \<noteq> SQ_H8"
  by (simp_all add: square_names)


lemma piece_kind_color:
  "get_piece_kind p = k \<Longrightarrow> p \<noteq> NO_PIECE \<Longrightarrow> p = make_piece (get_color p) k"
  by (cases p) auto

lemma get_piece_kind_make_piece [simp]: "get_piece_kind (make_piece c k) = k"
  by (cases c; cases k) auto

lemma get_color_make_piece [simp]: "k \<noteq> NO_PIECE_KIND \<Longrightarrow> get_color (make_piece c k) = c"
  by (cases c; cases k) auto





section \<open>Reading a FEN string: the fields of the result\<close>

lemma put_piece_frame [simp]:
  "castling_rights (put_piece p sq P) = castling_rights P"
  "half_move_counter (put_piece p sq P) = half_move_counter P"
  "enpassant_square (put_piece p sq P) = enpassant_square P"
  "current_side (put_piece p sq P) = current_side P"
  "ply_counter (put_piece p sq P) = ply_counter P"
  "history (put_piece p sq P) = history P"
  "history_counter (put_piece p sq P) = history_counter P"
  "zobrist_hash (put_piece p sq P) = zobrist_hash P"
  by (simp_all add: put_piece_def)

lemma fen_board_frame [simp]:
  "castling_rights (fen_board cs sq P) = castling_rights P"
  "half_move_counter (fen_board cs sq P) = half_move_counter P"
  "enpassant_square (fen_board cs sq P) = enpassant_square P"
  "current_side (fen_board cs sq P) = current_side P"
  "ply_counter (fen_board cs sq P) = ply_counter P"
  "history (fen_board cs sq P) = history P"
  "history_counter (fen_board cs sq P) = history_counter P"
  "zobrist_hash (fen_board cs sq P) = zobrist_hash P"
  by (induction cs sq P rule: fen_board.induct; simp)+

lemmas fen_tokens = fen_token1_def fen_token2_def fen_token3_def fen_token4_def fen_counters_def

lemma Position_fen_fields:
  "board (Position_fen Z fen) = board (fen_board (fen_token1 fen) (int SQ_A8) cleared_position)"
  "piece_count (Position_fen Z fen) = piece_count (fen_board (fen_token1 fen) (int SQ_A8) cleared_position)"
  "current_side (Position_fen Z fen) = (if fen_token2 fen = ''w'' then WHITE else BLACK)"
  "castling_rights (Position_fen Z fen) = fen_castling (fen_token3 fen) NO_CASTLING"
  "enpassant_square (Position_fen Z fen) =
     (if fen_token4 fen = ''-'' then NO_SQUARE else notationToSquare (fen_token4 fen))"
  "half_move_counter (Position_fen Z fen) = word_of_int (fst (read_int (fen_counters fen)))"
  "history_counter (Position_fen Z fen) = 1"
  by (simp_all add: Position_fen_def Let_def split_def fen_tokens set_enpassant_square_def
        cleared_position_def)


section \<open>Castling rights after \<^verbatim>\<open>do_move\<close>\<close>















section \<open>The counters after \<^verbatim>\<open>do_move\<close>\<close>







section \<open>Equality of positions\<close>

text \<open>
  C10. \<^verbatim>\<open>Position::operator==\<close> compares the composed Zobrist key, the side to move, the
  castling rights, the en-passant square and the 64 entries of the board, and nothing
  else: two positions that differ only in the half-move counter, the ply counter or the
  history compare equal.
\<close>

theorem position_eq_fields:
  "position_eq P Q =
     (get_key (zobrist_hash P) = get_key (zobrist_hash Q) \<and> current_side P = current_side Q \<and>
      castling_rights P = castling_rights Q \<and> enpassant_square P = enpassant_square Q \<and>
      (\<forall>sq < 64. board P sq = board Q sq)) \<and>
   position_eq P (P\<lparr>half_move_counter := h, ply_counter := n, history := hs, history_counter := c\<rparr>)"
  by (auto simp add: position_eq_def boards_agree_def square_names)

theorem position_eq_fields_witness:
  "position_eq (Position_fen sample_table CASTLING_FEN)
     ((Position_fen sample_table CASTLING_FEN)
        \<lparr>half_move_counter := 77, ply_counter := 200, history := (\<lambda>_. 0), history_counter := 12\<rparr>) \<and>
   half_move_counter (Position_fen sample_table CASTLING_FEN) \<noteq> 77"
  using position_eq_fields[where P = "Position_fen sample_table CASTLING_FEN"
          and h = 77 and n = 200 and hs = "\<lambda>_. 0" and c = 12]
  by (simp add: Position_fen_fields fen_tokens CASTLING_FEN_def read_token_def is_space_def
        read_int_def is_digit_def digits_value_def Let_def)

section \<open>Draws\<close>

lemma threefold_loop_count:
  "count < 3 \<Longrightarrow> threefold_loop P i count =
     (3 \<le> count + length (filter (\<lambda>j. history P j = get_key (zobrist_hash P)) [0 ..< nat (i + 1)]))"
proof (induction P i count rule: threefold_loop.induct)
  case (1 P i count)
  show ?case
  proof (cases "i \<ge> 0")
    case False
    then show ?thesis using "1.prems" by (simp add: threefold_loop.simps[of P i count])
  next
    case True
    then have up: "[0 ..< nat (i + 1)] = [0 ..< nat (i - 1 + 1)] @ [nat i]"
      by (simp add: nat_add_distrib)
    show ?thesis
    proof (cases "history P (nat i) = get_key (zobrist_hash P)")
      case hit: True
      show ?thesis
      proof (cases "Suc count = 3")
        case True
        then show ?thesis using hit \<open>i \<ge> 0\<close> up
          by (simp add: threefold_loop.simps[of P i count])
      next
        case False
        then have "Suc count < 3" using "1.prems" by simp
        from "1.IH"(1)[OF \<open>i \<ge> 0\<close> hit False this] show ?thesis
          using hit \<open>i \<ge> 0\<close> False up
          by (simp add: threefold_loop.simps[of P i count])
      qed
    next
      case miss: False
      from "1.IH"(2)[OF \<open>i \<ge> 0\<close> miss "1.prems"] show ?thesis
        using miss \<open>i \<ge> 0\<close> up
        by (simp add: threefold_loop.simps[of P i count])
    qed
  qed
qed

lemma threefold_repetition_iff:
  "threefold_repetition P =
     (2 \<le> length (filter (\<lambda>j. history P j = hash P) [0 ..< nat (history_counter P - 1)]))"
  using threefold_loop_count[of 1 P "history_counter P - 2"]
  by (simp add: threefold_repetition_def hash_def)

lemma pcv_member:
  "(List.find (\<lambda>v. v = create_pcv a b c d e f g h i j) notEnoughMaterialPCV = None) =
   (\<not> (a = 0 \<and> d = 0 \<and> e = 0 \<and> f = 0 \<and> i = 0 \<and> j = 0 \<and> b + c + g + h \<le> 1))"
  unfolding notEnoughMaterialPCV_def create_pcv_def
  by (simp add: find_None_iff) arith

lemma enough_material_iff:
  "(\<not> enough_material P) =
     (piece_count P W_PAWN = 0 \<and> piece_count P W_ROOK = 0 \<and> piece_count P W_QUEEN = 0 \<and>
      piece_count P B_PAWN = 0 \<and> piece_count P B_ROOK = 0 \<and> piece_count P B_QUEEN = 0 \<and>
      piece_count P W_KNIGHT + piece_count P W_BISHOP +
      piece_count P B_KNIGHT + piece_count P B_BISHOP \<le> 1)"
  unfolding enough_material_def get_pcv_def pcv_member by simp

text \<open>
  C6. \<^verbatim>\<open>is_draw\<close> holds exactly when the half-move counter is at least 100, or the
  current key stands at least twice among the history entries before the last one, or
  the material is insufficient; and \<^verbatim>\<open>enough_material\<close> fails exactly for the signatures
  without pawns, rooks and queens and with at most one knight or bishop on the board
  (king against king, king and knight against king, king and bishop against king, the
  minor piece on either side).
\<close>

theorem is_draw_iff:
  "is_draw P =
     (100 \<le> uint (half_move_counter P) \<or>
      2 \<le> length (filter (\<lambda>j. history P j = hash P) [0 ..< nat (history_counter P - 1)]) \<or>
      \<not> enough_material P) \<and>
   (\<not> enough_material P) =
     (piece_count P W_PAWN = 0 \<and> piece_count P W_ROOK = 0 \<and> piece_count P W_QUEEN = 0 \<and>
      piece_count P B_PAWN = 0 \<and> piece_count P B_ROOK = 0 \<and> piece_count P B_QUEEN = 0 \<and>
      piece_count P W_KNIGHT + piece_count P W_BISHOP +
      piece_count P B_KNIGHT + piece_count P B_BISHOP \<le> 1)"
  by (simp only: is_draw_def rule50_def threefold_repetition_iff enough_material_iff simp_thms)

lemma bare_kings_counts:
  "piece_count (Position_fen Z BARE_KINGS_FEN) =
     (\<lambda>_. 0)(B_KING := 1, W_KING := 1)"
  by (simp add: Position_fen_fields fen_tokens BARE_KINGS_FEN_def read_token_def is_space_def
        SQ_A8_def cleared_position_def put_piece_def char_to_piece_def)

text \<open>The bare kings of \<^verbatim>\<open>8/8/8/8/8/8/4k3/4K3 w - - 0 1\<close> are a draw.\<close>

theorem is_draw_iff_witness:
  "is_draw (Position_fen sample_table BARE_KINGS_FEN) \<and>
   \<not> enough_material (Position_fen sample_table BARE_KINGS_FEN)"
  using is_draw_iff[of "Position_fen sample_table BARE_KINGS_FEN"]
  by (simp add: bare_kings_counts)


subsection \<open>\<^verbatim>\<open>Position::move_is_quiet\<close>\<close>


section \<open>The search (\<^verbatim>\<open>search.cpp\<close>)\<close>

text \<open>Modelled from the spec: the class \<^verbatim>\<open>SearchInfo\<close> and its functions \<^verbatim>\<open>update_killers\<close>,
  \<^verbatim>\<open>update_history\<close> and \<^verbatim>\<open>update_pv\<close> are declared in a header that is not among the
  sources. The spec: the info block holds the current ply from the root, a killer table
  with two slots per ply (a new killer replaces slot 0 only if distinct), a history
  table indexed by side, from-square and to-square (incremented by the depth on a beta
  cutoff), and a principal-variation hint map keyed by the Zobrist key.\<close>

record search_info =
  ply :: int
  killers :: "nat \<Rightarrow> int \<Rightarrow> move"
  history_table :: "color \<Rightarrow> square \<Rightarrow> square \<Rightarrow> int"
  pv_hints :: "64 word \<Rightarrow> move option"

definition update_killers :: "int \<Rightarrow> move \<Rightarrow> search_info \<Rightarrow> search_info" where
  "update_killers p m info =
     (if killers info 0 p \<noteq> m
      then info\<lparr>killers := (killers info)(0 := (killers info 0)(p := m))\<rparr>
      else info)"

definition update_history :: "color \<Rightarrow> square \<Rightarrow> square \<Rightarrow> int \<Rightarrow> search_info \<Rightarrow> search_info" where
  "update_history side f t d info =
     info\<lparr>history_table :=
            (history_table info)(side := (history_table info side)
               (f := (history_table info side f)(t := history_table info side f t + d)))\<rparr>"

definition update_pv :: "64 word \<Rightarrow> move \<Rightarrow> search_info \<Rightarrow> search_info" where
  "update_pv key m info = info\<lparr>pv_hints := (pv_hints info)(key \<mapsto> m)\<rparr>"





lemma update_frames [simp]:
  "history_table (update_killers p m info) = history_table info"
  "killers (update_history side f t d info) = killers info"
  "history_table (update_pv key m info) = history_table info"
  "killers (update_pv key m info) = killers info"
  "history_table (update_history side f t d info) side f t = history_table info side f t + d"
  by (simp_all add: update_killers_def update_history_def update_pv_def)







section \<open>Parsing moves\<close>


subsection \<open>\<^verbatim>\<open>Position::parse_uci\<close>\<close>







subsection \<open>\<^verbatim>\<open>Position::parse_san\<close>\<close>















lemma bit_nat_small: "(k::nat) < 2 ^ m \<Longrightarrow> bit k n \<Longrightarrow> n < m"
  by (metis bit_take_bit_iff take_bit_nat_eq_self_iff)

lemma bit_nat_large: "(k::nat) < 2 ^ m \<Longrightarrow> m \<le> n \<Longrightarrow> \<not> bit k n"
  using bit_nat_small[of k m n] by auto

lemma and_mask_nat:
  "(x::nat) AND 7 = take_bit 3 x" "(x::nat) AND 15 = take_bit 4 x" "(x::nat) AND 63 = take_bit 6 x"
  "(x::nat) AND 255 = take_bit 8 x" "(x::nat) AND 3 = take_bit 2 x"
  by (simp_all add: take_bit_eq_mask mask_eq_exp_minus_1)

lemma piece_kind_code_less: "piece_kind_code k < 2 ^ 3"
  by (cases k) simp_all

lemma PieceKind_code [simp]: "PieceKind (piece_kind_code k) = k"
  by (cases k) (simp_all add: PieceKind_def)




lemma startpos_tokens:
  "fen_token1 STARTPOS_FEN = ''rnbqkbnr/pppppppp/8/8/8/8/PPPPPPPP/RNBQKBNR''"
  "fen_token2 STARTPOS_FEN = ''w''"
  "fen_token3 STARTPOS_FEN = ''KQkq''"
  "fen_token4 STARTPOS_FEN = ''-''"
  by (simp_all add: fen_tokens STARTPOS_FEN_def read_token_def is_space_def)

lemma startpos_board:
  "board (Position_fen Z STARTPOS_FEN) =
     (\<lambda>_. NO_PIECE)
       (56 := B_ROOK, 57 := B_KNIGHT, 58 := B_BISHOP, 59 := B_QUEEN, 60 := B_KING,
        61 := B_BISHOP, 62 := B_KNIGHT, 63 := B_ROOK,
        48 := B_PAWN, 49 := B_PAWN, 50 := B_PAWN, 51 := B_PAWN, 52 := B_PAWN, 53 := B_PAWN,
        54 := B_PAWN, 55 := B_PAWN,
        8 := W_PAWN, 9 := W_PAWN, 10 := W_PAWN, 11 := W_PAWN, 12 := W_PAWN, 13 := W_PAWN,
        14 := W_PAWN, 15 := W_PAWN,
        0 := W_ROOK, 1 := W_KNIGHT, 2 := W_BISHOP, 3 := W_QUEEN, 4 := W_KING,
        5 := W_BISHOP, 6 := W_KNIGHT, 7 := W_ROOK)"
  by (simp add: Position_fen_fields startpos_tokens SQ_A8_def cleared_position_def
        put_piece_def char_to_piece_def)




section \<open>Consistent positions\<close>

text \<open>The piece lists, the bitboards and the subkeys of a position say the same as its
  board. The constructors establish this and \<^verbatim>\<open>do_move\<close>, \<^verbatim>\<open>undo_move\<close> and the null moves
  maintain it.\<close>

text \<open>The exclusive or of \<open>g 0\<close>, ..., \<open>g (n - 1)\<close>.\<close>

primrec xor_upto :: "(nat \<Rightarrow> 64 word) \<Rightarrow> nat \<Rightarrow> 64 word" where
  "xor_upto g 0 = 0"
| "xor_upto g (Suc n) = xor_upto g n XOR g n"

text \<open>The key of a piece computed from the board: the exclusive or of the constants of
  the squares that hold the piece.\<close>

definition board_key :: "zobrist_table \<Rightarrow> (square \<Rightarrow> piece) \<Rightarrow> piece \<Rightarrow> 64 word" where
  "board_key Z b p = xor_upto (\<lambda>sq. if b sq = p then HASH_PIECE Z p sq else 0) 64"

definition lists_ok :: "position \<Rightarrow> bool" where
  "lists_ok P =
     (\<forall>p. p \<noteq> NO_PIECE \<longrightarrow>
        inj_on (piece_position P p) {..< piece_count P p} \<and>
        piece_position P p ` {..< piece_count P p} = {sq. sq < 64 \<and> board P sq = p})"

definition bitboards_ok :: "position \<Rightarrow> bool" where
  "bitboards_ok P =
     ((\<forall>c sq. sq < 64 \<longrightarrow>
         bit (by_color_bb P c) sq = (board P sq \<noteq> NO_PIECE \<and> get_color (board P sq) = c)) \<and>
      (\<forall>k sq. sq < 64 \<longrightarrow> k \<noteq> NO_PIECE_KIND \<longrightarrow>
         bit (by_piece_kind_bb P k) sq = (get_piece_kind (board P sq) = k)) \<and>
      by_piece_kind_bb P NO_PIECE_KIND = 0)"

definition piece_keys_ok :: "zobrist_table \<Rightarrow> (square \<Rightarrow> piece) \<Rightarrow> hashkey \<Rightarrow> bool" where
  "piece_keys_ok Z b h =
     (pawn_key h = board_key Z b W_PAWN XOR board_key Z b B_PAWN \<and>
      piece_key h =
        board_key Z b W_KNIGHT XOR board_key Z b W_BISHOP XOR
        board_key Z b W_ROOK XOR board_key Z b W_QUEEN XOR
        board_key Z b W_KING XOR
        board_key Z b B_KNIGHT XOR board_key Z b B_BISHOP XOR
        board_key Z b B_ROOK XOR board_key Z b B_QUEEN XOR
        board_key Z b B_KING)"

definition state_keys_ok :: "zobrist_table \<Rightarrow> position \<Rightarrow> bool" where
  "state_keys_ok Z P =
     (castling_key (zobrist_hash P) = castling_hash Z (castling_rights P) \<and>
      enpassant_key (zobrist_hash P) =
        (if enpassant_square P = NO_SQUARE then 0
         else HASH_ENPASSANT Z (file_of (enpassant_square P))) \<and>
      color_key (zobrist_hash P) = (if current_side P = WHITE then HASH_TURN Z else 0))"

definition consistent :: "zobrist_table \<Rightarrow> position \<Rightarrow> bool" where
  "consistent Z P =
     (lists_ok P \<and> bitboards_ok P \<and> piece_keys_ok Z (board P) (zobrist_hash P) \<and>
      state_keys_ok Z P)"

subsection \<open>Exclusive or over a range\<close>

lemma xor_upto_cong: "(\<And>i. i < n \<Longrightarrow> g i = h i) \<Longrightarrow> xor_upto g n = xor_upto h n"
  by (induction n) simp_all

lemma xor_upto_update:
  "j < n \<Longrightarrow> xor_upto (g(j := v)) n = xor_upto g n XOR g j XOR v"
proof (induction n)
  case 0
  then show ?case by simp
next
  case (Suc n)
  show ?case
  proof (cases "j = n")
    case True
    have "xor_upto (g(j := v)) n = xor_upto g n"
      using True by (intro xor_upto_cong) simp
    then have "xor_upto (g(j := v)) (Suc n) = xor_upto g n XOR v"
      using True by (simp only: xor_upto.simps fun_upd_same)
    also have "\<dots> = xor_upto g (Suc n) XOR g j XOR v"
      using True by (simp add: xor.assoc)
    finally show ?thesis .
  next
    case False
    then have "j < n" using Suc.prems by simp
    from Suc.IH[OF this] show ?thesis using False
      by (simp add: xor.assoc xor.left_commute xor.commute)
  qed
qed

lemma xor_upto_zero: "(\<And>i. i < n \<Longrightarrow> g i = 0) \<Longrightarrow> xor_upto g n = 0"
  by (induction n) simp_all

text \<open>The key of a piece after one square of the board changes.\<close>

lemma board_key_update:
  assumes "sq < 64"
  shows "board_key Z (b(sq := q)) p =
           board_key Z b p XOR (if b sq = p then HASH_PIECE Z p sq else 0)
                          XOR (if q = p then HASH_PIECE Z p sq else 0)"
proof -
  have "(\<lambda>s. if (b(sq := q)) s = p then HASH_PIECE Z p s else 0) =
        (\<lambda>s. if b s = p then HASH_PIECE Z p s else 0)(sq := if q = p then HASH_PIECE Z p sq else 0)"
    by (rule ext) simp
  then show ?thesis
    unfolding board_key_def using xor_upto_update[OF assms[unfolded numeral_eq_Suc], of _ _] assms
    by (simp add: xor_upto_update)
qed

text \<open>The loop over the list of a piece gives the key of the piece from the board.\<close>

lemma xor_upto_reindex:
  "inj_on pp {..< n} \<Longrightarrow> pp ` {..< n} = S \<Longrightarrow> (\<And>s. s \<in> S \<Longrightarrow> s < m) \<Longrightarrow>
     xor_upto (\<lambda>i. h (pp i)) n = xor_upto (\<lambda>s. if s \<in> S then h s else 0) m"
proof (induction n arbitrary: S)
  case 0
  then have "S = {}" by simp
  then show ?case by (simp add: xor_upto_zero)
next
  case (Suc n)
  let ?s = "pp n"
  have inj: "inj_on pp {..< n}" using Suc.prems(1) by (auto simp add: inj_on_def)
  have notin: "?s \<notin> pp ` {..< n}"
  proof
    assume "?s \<in> pp ` {..< n}"
    then obtain x where x: "x < n" "pp x = pp n" by auto
    then have "x = n" using inj_onD[OF Suc.prems(1), of x n] by simp
    then show False using x by simp
  qed
  have S: "S = insert ?s (pp ` {..< n})"
    using Suc.prems(2) by (auto simp add: lessThan_Suc)
  have lt: "?s < m" using Suc.prems(3) S by simp
  have IH: "xor_upto (\<lambda>i. h (pp i)) n =
            xor_upto (\<lambda>s. if s \<in> pp ` {..< n} then h s else 0) m"
    using Suc.IH[OF inj refl] Suc.prems(3) S by simp
  have "(\<lambda>s. if s \<in> S then h s else 0) =
        (\<lambda>s. if s \<in> pp ` {..< n} then h s else 0)(?s := h ?s)"
    using S by (auto simp add: fun_eq_iff)
  then have "xor_upto (\<lambda>s. if s \<in> S then h s else 0) m =
             xor_upto (\<lambda>s. if s \<in> pp ` {..< n} then h s else 0) m XOR h ?s"
    using xor_upto_update[OF lt, of "\<lambda>s. if s \<in> pp ` {..< n} then h s else 0" "h ?s"] notin
    by simp
  then show ?case using IH by simp
qed

lemma fold_xor_upto:
  "fold (\<lambda>i k. k XOR g i) [0 ..< n] key = key XOR xor_upto g n"
  by (induction n) (simp_all add: xor.assoc)

lemma xor_piece_list_board_key:
  assumes "lists_ok P" "p \<noteq> NO_PIECE"
  shows "xor_piece_list Z P p key = key XOR board_key Z (board P) p"
proof -
  have inj: "inj_on (piece_position P p) {..< piece_count P p}"
    and img: "piece_position P p ` {..< piece_count P p} = {sq. sq < 64 \<and> board P sq = p}"
    using assms by (simp_all add: lists_ok_def)
  have "xor_upto (\<lambda>i. HASH_PIECE Z p (piece_position P p i)) (piece_count P p) =
        xor_upto (\<lambda>s. if s \<in> {sq. sq < 64 \<and> board P sq = p} then HASH_PIECE Z p s else 0) 64"
    by (rule xor_upto_reindex[OF inj img]) simp
  also have "\<dots> = board_key Z (board P) p"
    unfolding board_key_def by (rule xor_upto_cong) simp
  finally show ?thesis
    by (simp add: xor_piece_list_def fold_xor_upto)
qed


subsection \<open>What the three piece operations do to the fields\<close>

lemma add_piece_fields:
  "board (add_piece Z p sq P) = (board P)(sq := p)"
  "piece_count (add_piece Z p sq P) = (piece_count P)(p := Suc (piece_count P p))"
  "piece_position (add_piece Z p sq P) =
     (piece_position P)(p := (piece_position P p)(piece_count P p := sq))"
  "by_color_bb (add_piece Z p sq P) =
     (by_color_bb P)(get_color p := by_color_bb P (get_color p) OR square_bb sq)"
  "by_piece_kind_bb (add_piece Z p sq P) =
     (by_piece_kind_bb P)(get_piece_kind p := by_piece_kind_bb P (get_piece_kind p) OR square_bb sq)"
  "zobrist_hash (add_piece Z p sq P) = toggle_piece Z p sq (zobrist_hash P)"
  by (simp_all add: add_piece_def)

lemma remove_piece_fields:
  "board (remove_piece Z sq P) = (board P)(sq := NO_PIECE)"
  "piece_count (remove_piece Z sq P) =
     (piece_count P)(board P sq := piece_count P (board P sq) - 1)"
  "piece_position (remove_piece Z sq P) =
     (piece_position P)(board P sq :=
        remove_loop (piece_position P (board P sq)) (piece_count P (board P sq)) sq 0)"
  "by_color_bb (remove_piece Z sq P) =
     (by_color_bb P)(get_color (board P sq) :=
        by_color_bb P (get_color (board P sq)) XOR square_bb sq)"
  "by_piece_kind_bb (remove_piece Z sq P) =
     (by_piece_kind_bb P)(get_piece_kind (board P sq) :=
        by_piece_kind_bb P (get_piece_kind (board P sq)) XOR square_bb sq)"
  "zobrist_hash (remove_piece Z sq P) = toggle_piece Z (board P sq) sq (zobrist_hash P)"
  by (simp_all add: remove_piece_def Let_def)

lemma move_piece_fields:
  "board (move_piece Z f t P) = (board P)(f := NO_PIECE, t := board P f)"
  "piece_position (move_piece Z f t P) =
     (piece_position P)(board P f :=
        move_loop (piece_position P (board P f)) (piece_count P (board P f)) f t 0)"
  "by_color_bb (move_piece Z f t P) =
     (by_color_bb P)(get_color (board P f) :=
        by_color_bb P (get_color (board P f)) XOR (square_bb f OR square_bb t))"
  "by_piece_kind_bb (move_piece Z f t P) =
     (by_piece_kind_bb P)(get_piece_kind (board P f) :=
        by_piece_kind_bb P (get_piece_kind (board P f)) XOR (square_bb f OR square_bb t))"
  "zobrist_hash (move_piece Z f t P) = hash_move_piece Z (board P f) f t (zobrist_hash P)"
  by (simp_all add: move_piece_def Let_def)

subsection \<open>The two loops over a piece list\<close>



lemma remove_loop_found:
  assumes "j < n" "pp j = sq" "\<And>k. i \<le> k \<Longrightarrow> k < j \<Longrightarrow> pp k \<noteq> sq" "i \<le> j"
  shows "remove_loop pp n sq i = (if j < n - 1 then pp(j := pp (n - 1)) else pp)"
  using assms
proof (induction pp n sq i rule: remove_loop.induct)
  case (1 pp n sq i)
  show ?case
  proof (cases "int i < int n - 1")
    case False
    then have "\<not> j < n - 1" using "1.prems" by linarith
    then show ?thesis using False by (simp add: remove_loop.simps[of pp n sq i])
  next
    case True
    show ?thesis
    proof (cases "pp i = sq")
      case hit: True
      then have "i = j" using "1.prems" by (metis le_neq_implies_less order_refl)
      have "remove_loop pp n sq i = pp(i := pp (n - 1))"
        using True hit by (subst remove_loop.simps) simp
      moreover have "j < n - 1" using True \<open>i = j\<close> by linarith
      ultimately show ?thesis using \<open>i = j\<close> by simp
    next
      case miss: False
      then have "Suc i \<le> j" using "1.prems" by (metis Suc_leI le_neq_implies_less)
      from "1.IH"[OF True miss "1.prems"(1,2) _ this] "1.prems"(3)
      show ?thesis using True miss by (simp add: remove_loop.simps[of pp n sq i])
    qed
  qed
qed

lemma move_loop_found:
  assumes "j < n" "pp j = f" "\<And>k. i \<le> k \<Longrightarrow> k < j \<Longrightarrow> pp k \<noteq> f" "i \<le> j"
  shows "move_loop pp n f t i = pp(j := t)"
  using assms
proof (induction pp n f t i rule: move_loop.induct)
  case (1 pp n f t i)
  have "i < n" using "1.prems" by simp
  show ?case
  proof (cases "pp i = f")
    case hit: True
    then have "i = j" using "1.prems" by (metis le_neq_implies_less order_refl)
    have "move_loop pp n f t i = pp(i := t)"
      using \<open>i < n\<close> hit by (subst move_loop.simps) simp
    then show ?thesis using \<open>i = j\<close> by simp
  next
    case miss: False
    then have "Suc i \<le> j" using "1.prems" by (metis Suc_leI le_neq_implies_less)
    from "1.IH"[OF \<open>i < n\<close> miss "1.prems"(1,2) _ this] "1.prems"(3)
    show ?thesis using \<open>i < n\<close> miss by (simp add: move_loop.simps[of pp n f t i])
  qed
qed

text \<open>In an injective list that holds the square, the loops find its one index.\<close>

lemma list_index:
  assumes "inj_on pp {..< n}" "sq \<in> pp ` {..< n}"
  obtains j where "j < n" "pp j = sq" "\<And>k. k < n \<Longrightarrow> pp k = sq \<Longrightarrow> k = j"
proof -
  from assms(2) obtain j where j: "j < n" "pp j = sq" by auto
  moreover have "k = j" if "k < n" "pp k = sq" for k
    using inj_onD[OF assms(1), of k j] that j by simp
  ultimately show ?thesis using that by blast
qed

lemma remove_loop_list:
  assumes inj: "inj_on pp {..< n}" and mem: "sq \<in> pp ` {..< n}"
  shows "inj_on (remove_loop pp n sq 0) {..< n - 1} \<and>
         remove_loop pp n sq 0 ` {..< n - 1} = pp ` {..< n} - {sq}"
proof -
  from list_index[OF inj mem] obtain j where
    j: "j < n" "pp j = sq" "\<And>k. k < n \<Longrightarrow> pp k = sq \<Longrightarrow> k = j" by blast
  have r: "remove_loop pp n sq 0 = (if j < n - 1 then pp(j := pp (n - 1)) else pp)"
  proof (rule remove_loop_found[where j = j])
    show "j < n" "pp j = sq" "0 \<le> j" using j(1,2) by simp_all
    show "pp k \<noteq> sq" if "0 \<le> k" "k < j" for k using j(3)[of k] that j(1) by auto
  qed
  have inj': "\<And>a b. a < n \<Longrightarrow> b < n \<Longrightarrow> pp a = pp b \<Longrightarrow> a = b"
    using inj by (auto simp add: inj_on_def)
  show ?thesis
  proof (cases "j < n - 1")
    case True
    have "inj_on pp {..< n - 1}"
      by (rule inj_on_subset[OF inj]) auto
    moreover have "pp (n - 1) \<notin> pp ` {..< n - 1}"
    proof
      assume "pp (n - 1) \<in> pp ` {..< n - 1}"
      then obtain k where k: "k < n - 1" "pp k = pp (n - 1)" by auto
      then have "k = n - 1" using inj'[of k "n - 1"] \<open>j < n\<close> by linarith
      then show False using k by simp
    qed
    ultimately have "inj_on (pp(j := pp (n - 1))) {..< n - 1}"
      by (rule inj_on_fun_updI)
    moreover have "(pp(j := pp (n - 1))) ` {..< n - 1} = pp ` {..< n} - {sq}"
    proof (intro set_eqI iffI)
      fix s assume "s \<in> (pp(j := pp (n - 1))) ` {..< n - 1}"
      then obtain k where k: "k < n - 1" "s = (pp(j := pp (n - 1))) k" by auto
      show "s \<in> pp ` {..< n} - {sq}"
      proof (cases "k = j")
        case True
        then have "s = pp (n - 1)" using k by simp
        moreover have "pp (n - 1) \<noteq> sq" using j(3)[of "n - 1"] \<open>j < n - 1\<close> by auto
        ultimately show ?thesis using \<open>j < n - 1\<close> by auto
      next
        case False
        then have "s = pp k" using k by simp
        moreover have "k < n" using k by simp
        moreover have "pp k \<noteq> sq" using j(3)[of k] \<open>k < n\<close> False by auto
        ultimately show ?thesis by auto
      qed
    next
      fix s assume "s \<in> pp ` {..< n} - {sq}"
      then obtain k where k: "k < n" "s = pp k" "pp k \<noteq> sq" by auto
      then have kj: "k \<noteq> j" using j(2) by auto
      show "s \<in> (pp(j := pp (n - 1))) ` {..< n - 1}"
      proof (cases "k = n - 1")
        case True
        then have "s = (pp(j := pp (n - 1))) j" using k by simp
        then show ?thesis using \<open>j < n - 1\<close> by blast
      next
        case False
        then have "k < n - 1" using k by simp
        moreover have "s = (pp(j := pp (n - 1))) k" using k kj by simp
        ultimately show ?thesis by blast
      qed
    qed
    ultimately show ?thesis unfolding r using True by simp
  next
    case False
    then have jn: "j = n - 1" using j(1) by simp
    have "inj_on pp {..< n - 1}"
      by (rule inj_on_subset[OF inj]) auto
    moreover have "pp ` {..< n - 1} = pp ` {..< n} - {sq}"
    proof (intro set_eqI iffI)
      fix s assume "s \<in> pp ` {..< n - 1}"
      then obtain k where k: "k < n - 1" "s = pp k" by auto
      have "k < n" using k by simp
      then have "pp k \<noteq> sq" using j(3)[of k] jn k by auto
      then show "s \<in> pp ` {..< n} - {sq}" using k \<open>k < n\<close> by auto
    next
      fix s assume "s \<in> pp ` {..< n} - {sq}"
      then obtain k where k: "k < n" "s = pp k" "pp k \<noteq> sq" by auto
      then have "k \<noteq> j" using j(2) by auto
      then have "k < n - 1" using k jn by simp
      then show "s \<in> pp ` {..< n - 1}" using k by auto
    qed
    ultimately show ?thesis unfolding r using False by simp
  qed
qed

lemma move_loop_list:
  assumes inj: "inj_on pp {..< n}" and mem: "f \<in> pp ` {..< n}" and new: "t \<notin> pp ` {..< n}"
  shows "inj_on (move_loop pp n f t 0) {..< n} \<and>
         move_loop pp n f t 0 ` {..< n} = insert t (pp ` {..< n} - {f})"
proof -
  from list_index[OF inj mem] obtain j where
    j: "j < n" "pp j = f" "\<And>k. k < n \<Longrightarrow> pp k = f \<Longrightarrow> k = j" by blast
  have r: "move_loop pp n f t 0 = pp(j := t)"
  proof (rule move_loop_found[where j = j])
    show "j < n" "pp j = f" "0 \<le> j" using j(1,2) by simp_all
    show "pp k \<noteq> f" if "0 \<le> k" "k < j" for k using j(3)[of k] that j(1) by auto
  qed
  have inj': "\<And>a b. a < n \<Longrightarrow> b < n \<Longrightarrow> pp a = pp b \<Longrightarrow> a = b"
    using inj by (auto simp add: inj_on_def)
  have "inj_on (pp(j := t)) {..< n}"
    using inj new by (rule inj_on_fun_updI)
  moreover have "(pp(j := t)) ` {..< n} = insert t (pp ` {..< n} - {f})"
  proof (intro set_eqI iffI)
    fix s assume "s \<in> (pp(j := t)) ` {..< n}"
    then obtain k where k: "k < n" "s = (pp(j := t)) k" by auto
    show "s \<in> insert t (pp ` {..< n} - {f})"
    proof (cases "k = j")
      case True
      then show ?thesis using k by simp
    next
      case False
      then have "s = pp k" "pp k \<noteq> f" using k j(3)[of k] by auto
      then show ?thesis using k by auto
    qed
  next
    fix s assume "s \<in> insert t (pp ` {..< n} - {f})"
    then consider "s = t" | k where "k < n" "s = pp k" "pp k \<noteq> f" by auto
    then show "s \<in> (pp(j := t)) ` {..< n}"
    proof cases
      case 1
      then have "s = (pp(j := t)) j" by simp
      then show ?thesis using j(1) by blast
    next
      case 2
      then have "k \<noteq> j" using j(2) by auto
      then have "s = (pp(j := t)) k" using 2 by simp
      then show ?thesis using 2 by blast
    qed
  qed
  ultimately show ?thesis unfolding r by simp
qed


subsection \<open>Bits of a square\<close>

lemma bit_square_bb: "sq < 64 \<Longrightarrow> bit (square_bb sq) s = (s = sq)"
  by (auto simp add: square_bb_def bit_exp_iff)


subsection \<open>The subkeys after a piece is toggled\<close>

lemma toggle_piece_keys:
  "castling_key (toggle_piece Z p sq h) = castling_key h"
  "enpassant_key (toggle_piece Z p sq h) = enpassant_key h"
  "color_key (toggle_piece Z p sq h) = color_key h"
  "pawn_key (toggle_piece Z p sq h) =
     (if get_piece_kind p = PAWN then pawn_key h XOR HASH_PIECE Z p sq else pawn_key h)"
  "piece_key (toggle_piece Z p sq h) =
     (if get_piece_kind p = PAWN then piece_key h else piece_key h XOR HASH_PIECE Z p sq)"
  by (simp_all add: toggle_piece_def)

lemma piece_keys_place:
  assumes "piece_keys_ok Z b h" "sq < 64" "b sq = NO_PIECE" "p \<noteq> NO_PIECE"
  shows "piece_keys_ok Z (b(sq := p)) (toggle_piece Z p sq h)"
  using assms
  by (cases p)
     (simp_all add: piece_keys_ok_def board_key_update toggle_piece_keys xor.assoc
        xor.left_commute xor.commute)

lemma piece_keys_clear:
  assumes "piece_keys_ok Z b h" "sq < 64" "b sq = p" "p \<noteq> NO_PIECE"
  shows "piece_keys_ok Z (b(sq := NO_PIECE)) (toggle_piece Z p sq h)"
  using assms
  by (cases p)
     (simp_all add: piece_keys_ok_def board_key_update toggle_piece_keys xor.assoc
        xor.left_commute xor.commute)

subsection \<open>The piece lists\<close>

lemma list_append:
  assumes "inj_on pp {..< n}" "sq \<notin> pp ` {..< n}"
  shows "inj_on (pp(n := sq)) {..< Suc n} \<and>
         (pp(n := sq)) ` {..< Suc n} = insert sq (pp ` {..< n})"
proof -
  have eq: "(pp(n := sq)) ` {..< n} = pp ` {..< n}" by auto
  have "inj_on (pp(n := sq)) {..< n}"
    using assms(1) by (auto simp add: inj_on_def)
  then have "inj_on (pp(n := sq)) (insert n {..< n})"
    using assms(2) eq by (auto simp add: inj_on_def)
  moreover have "(pp(n := sq)) ` insert n {..< n} = insert sq (pp ` {..< n})"
    using eq by auto
  ultimately show ?thesis by (simp add: lessThan_Suc)
qed

lemma add_piece_lists_ok:
  assumes ok: "lists_ok P" and sq: "sq < 64" and empty: "board P sq = NO_PIECE"
    and p: "p \<noteq> NO_PIECE"
  shows "lists_ok (add_piece Z p sq P)"
  unfolding lists_ok_def
proof (intro allI impI)
  fix q :: piece
  assume q: "q \<noteq> NO_PIECE"
  have inj: "inj_on (piece_position P q) {..< piece_count P q}"
    and img: "piece_position P q ` {..< piece_count P q} = {s. s < 64 \<and> board P s = q}"
    using ok q by (simp_all add: lists_ok_def)
  show "inj_on (piece_position (add_piece Z p sq P) q) {..< piece_count (add_piece Z p sq P) q} \<and>
        piece_position (add_piece Z p sq P) q ` {..< piece_count (add_piece Z p sq P) q} =
          {s. s < 64 \<and> board (add_piece Z p sq P) s = q}"
  proof (cases "q = p")
    case True
    have notin: "sq \<notin> piece_position P q ` {..< piece_count P q}"
      using img empty q by auto
    have "{s. s < 64 \<and> ((board P)(sq := p)) s = q} = insert sq {s. s < 64 \<and> board P s = q}"
      using True sq by auto
    then show ?thesis
      using list_append[OF inj notin] True img by (simp add: add_piece_fields)
  next
    case False
    have "{s. s < 64 \<and> ((board P)(sq := p)) s = q} = {s. s < 64 \<and> board P s = q}"
      using False empty q by auto
    then show ?thesis
      using inj img False by (simp add: add_piece_fields)
  qed
qed

lemma remove_piece_lists_ok:
  assumes ok: "lists_ok P" and sq: "sq < 64" and full: "board P sq \<noteq> NO_PIECE"
  shows "lists_ok (remove_piece Z sq P)"
  unfolding lists_ok_def
proof (intro allI impI)
  fix q :: piece
  assume q: "q \<noteq> NO_PIECE"
  have inj: "inj_on (piece_position P q) {..< piece_count P q}"
    and img: "piece_position P q ` {..< piece_count P q} = {s. s < 64 \<and> board P s = q}"
    using ok q by (simp_all add: lists_ok_def)
  show "inj_on (piece_position (remove_piece Z sq P) q) {..< piece_count (remove_piece Z sq P) q} \<and>
        piece_position (remove_piece Z sq P) q ` {..< piece_count (remove_piece Z sq P) q} =
          {s. s < 64 \<and> board (remove_piece Z sq P) s = q}"
  proof (cases "q = board P sq")
    case True
    have mem: "sq \<in> piece_position P q ` {..< piece_count P q}"
      using img True sq by auto
    have "{s. s < 64 \<and> ((board P)(sq := NO_PIECE)) s = q} = {s. s < 64 \<and> board P s = q} - {sq}"
      using q by auto
    then show ?thesis
      using remove_loop_list[OF inj mem] True img by (simp add: remove_piece_fields)
  next
    case False
    have "{s. s < 64 \<and> ((board P)(sq := NO_PIECE)) s = q} = {s. s < 64 \<and> board P s = q}"
      using False q by auto
    then show ?thesis
      using inj img False by (simp add: remove_piece_fields)
  qed
qed

lemma move_piece_lists_ok:
  assumes ok: "lists_ok P" and f: "f < 64" and t: "t < 64"
    and full: "board P f \<noteq> NO_PIECE" and empty: "board P t = NO_PIECE"
  shows "lists_ok (move_piece Z f t P)"
  unfolding lists_ok_def
proof (intro allI impI)
  fix q :: piece
  assume q: "q \<noteq> NO_PIECE"
  have ft: "f \<noteq> t" using full empty by auto
  have inj: "inj_on (piece_position P q) {..< piece_count P q}"
    and img: "piece_position P q ` {..< piece_count P q} = {s. s < 64 \<and> board P s = q}"
    using ok q by (simp_all add: lists_ok_def)
  show "inj_on (piece_position (move_piece Z f t P) q) {..< piece_count (move_piece Z f t P) q} \<and>
        piece_position (move_piece Z f t P) q ` {..< piece_count (move_piece Z f t P) q} =
          {s. s < 64 \<and> board (move_piece Z f t P) s = q}"
  proof (cases "q = board P f")
    case True
    have mem: "f \<in> piece_position P q ` {..< piece_count P q}"
      using img True f by auto
    have new: "t \<notin> piece_position P q ` {..< piece_count P q}"
      using img empty q by auto
    have "{s. s < 64 \<and> ((board P)(f := NO_PIECE, t := board P f)) s = q} =
          insert t ({s. s < 64 \<and> board P s = q} - {f})"
      using q True t ft by auto
    then show ?thesis
      using move_loop_list[OF inj mem new] True img by (simp add: move_piece_fields)
  next
    case False
    have "{s. s < 64 \<and> ((board P)(f := NO_PIECE, t := board P f)) s = q} =
          {s. s < 64 \<and> board P s = q}"
      using False q empty by auto
    then show ?thesis
      using inj img False by (simp add: move_piece_fields)
  qed
qed

subsection \<open>The bitboards\<close>

lemma piece_color_kind: "p \<noteq> NO_PIECE \<Longrightarrow> get_piece_kind p \<noteq> NO_PIECE_KIND"
  by (cases p) simp_all

lemma add_piece_bitboards_ok:
  assumes ok: "bitboards_ok P" and sq: "sq < 64" and empty: "board P sq = NO_PIECE"
    and p: "p \<noteq> NO_PIECE"
  shows "bitboards_ok (add_piece Z p sq P)"
  using assms piece_color_kind[OF p]
  by (auto simp add: bitboards_ok_def add_piece_fields bit_or_iff bit_square_bb)

lemma remove_piece_bitboards_ok:
  assumes ok: "bitboards_ok P" and sq: "sq < 64" and full: "board P sq \<noteq> NO_PIECE"
  shows "bitboards_ok (remove_piece Z sq P)"
  using assms piece_color_kind[OF full]
  by (auto simp add: bitboards_ok_def remove_piece_fields bit_xor_iff bit_square_bb)

lemma move_piece_bitboards_ok:
  assumes ok: "bitboards_ok P" and f: "f < 64" and t: "t < 64"
    and full: "board P f \<noteq> NO_PIECE" and empty: "board P t = NO_PIECE"
  shows "bitboards_ok (move_piece Z f t P)"
  using assms piece_color_kind[OF full]
  by (auto simp add: bitboards_ok_def move_piece_fields bit_xor_iff bit_or_iff bit_square_bb)


subsection \<open>The part of the invariant that the piece operations maintain\<close>

definition pieces_ok :: "zobrist_table \<Rightarrow> position \<Rightarrow> bool" where
  "pieces_ok Z P =
     (lists_ok P \<and> bitboards_ok P \<and> piece_keys_ok Z (board P) (zobrist_hash P))"

lemma consistent_pieces_ok: "consistent Z P = (pieces_ok Z P \<and> state_keys_ok Z P)"
  by (auto simp add: consistent_def pieces_ok_def)

lemma pieces_ok_cong:
  assumes "board P' = board P" "piece_count P' = piece_count P"
    "piece_position P' = piece_position P" "by_color_bb P' = by_color_bb P"
    "by_piece_kind_bb P' = by_piece_kind_bb P"
    "pawn_key (zobrist_hash P') = pawn_key (zobrist_hash P)"
    "piece_key (zobrist_hash P') = piece_key (zobrist_hash P)"
  shows "pieces_ok Z P' = pieces_ok Z P"
  by (simp add: pieces_ok_def lists_ok_def bitboards_ok_def piece_keys_ok_def assms)

lemma add_piece_pieces_ok:
  assumes "pieces_ok Z P" "sq < 64" "board P sq = NO_PIECE" "p \<noteq> NO_PIECE"
  shows "pieces_ok Z (add_piece Z p sq P)"
  using assms add_piece_lists_ok[of P sq p Z] add_piece_bitboards_ok[of P sq p Z]
    piece_keys_place[of Z "board P" "zobrist_hash P" sq p]
  by (simp add: pieces_ok_def add_piece_fields)

lemma remove_piece_pieces_ok:
  assumes "pieces_ok Z P" "sq < 64" "board P sq \<noteq> NO_PIECE"
  shows "pieces_ok Z (remove_piece Z sq P)"
  using assms remove_piece_lists_ok[of P sq Z] remove_piece_bitboards_ok[of P sq Z]
    piece_keys_clear[of Z "board P" "zobrist_hash P" sq "board P sq"]
  by (simp add: pieces_ok_def remove_piece_fields)

lemma move_piece_pieces_ok:
  assumes "pieces_ok Z P" "f < 64" "t < 64" "board P f \<noteq> NO_PIECE" "board P t = NO_PIECE"
  shows "pieces_ok Z (move_piece Z f t P)"
proof -
  have ft: "f \<noteq> t" using assms by auto
  have "piece_keys_ok Z ((board P)(f := NO_PIECE)) (toggle_piece Z (board P f) f (zobrist_hash P))"
    using assms by (intro piece_keys_clear) (simp_all add: pieces_ok_def)
  then have "piece_keys_ok Z ((board P)(f := NO_PIECE, t := board P f))
               (toggle_piece Z (board P f) t (toggle_piece Z (board P f) f (zobrist_hash P)))"
    using assms ft by (intro piece_keys_place) simp_all
  then show ?thesis
    using assms move_piece_lists_ok[of P f t Z] move_piece_bitboards_ok[of P f t Z]
    by (simp add: pieces_ok_def move_piece_fields hash_move_piece_def)
qed

subsection \<open>The subkeys after each step\<close>

lemma set_castling_keys:
  "piece_key (set_castling Z c h) = piece_key h"
  "pawn_key (set_castling Z c h) = pawn_key h"
  "enpassant_key (set_castling Z c h) = enpassant_key h"
  "color_key (set_castling Z c h) = color_key h"
  "castling_key (set_castling Z c h) = castling_hash Z c"
  by (simp_all add: set_castling_def clear_castling_def castling_hash_def Let_def xor.assoc)

lemma hash_move_piece_keys:
  "castling_key (hash_move_piece Z p f t h) = castling_key h"
  "enpassant_key (hash_move_piece Z p f t h) = enpassant_key h"
  "color_key (hash_move_piece Z p f t h) = color_key h"
  by (simp_all add: hash_move_piece_def toggle_piece_keys)

lemma flip_side_keys:
  "piece_key (flip_side Z h) = piece_key h"
  "pawn_key (flip_side Z h) = pawn_key h"
  "enpassant_key (flip_side Z h) = enpassant_key h"
  "castling_key (flip_side Z h) = castling_key h"
  "color_key (flip_side Z h) = color_key h XOR HASH_TURN Z"
  by (simp_all add: flip_side_def)

lemma clear_enpassant_keys:
  "piece_key (clear_enpassant h) = piece_key h"
  "pawn_key (clear_enpassant h) = pawn_key h"
  "enpassant_key (clear_enpassant h) = 0"
  "castling_key (clear_enpassant h) = castling_key h"
  "color_key (clear_enpassant h) = color_key h"
  by (simp_all add: clear_enpassant_def)

lemma set_enpassant_keys:
  "piece_key (set_enpassant Z f h) = piece_key h"
  "pawn_key (set_enpassant Z f h) = pawn_key h"
  "enpassant_key (set_enpassant Z f h) = HASH_ENPASSANT Z f"
  "castling_key (set_enpassant Z f h) = castling_key h"
  "color_key (set_enpassant Z f h) = color_key h"
  by (simp_all add: set_enpassant_def)

lemmas subkey_simps =
  set_castling_keys hash_move_piece_keys flip_side_keys clear_enpassant_keys set_enpassant_keys
  toggle_piece_keys(1-3)

text \<open>The state subkeys are not touched by the piece operations.\<close>

definition state_keys :: "position \<Rightarrow> 64 word \<times> 64 word \<times> 64 word" where
  "state_keys P =
     (castling_key (zobrist_hash P), enpassant_key (zobrist_hash P), color_key (zobrist_hash P))"

lemma piece_ops_state_keys [simp]:
  "state_keys (add_piece Z p sq P) = state_keys P"
  "state_keys (remove_piece Z sq P) = state_keys P"
  "state_keys (move_piece Z f t P) = state_keys P"
  by (simp_all add: state_keys_def add_piece_fields remove_piece_fields move_piece_fields
        subkey_simps)

lemma state_keys_ok_alt:
  "state_keys_ok Z P =
     (state_keys P =
        (castling_hash Z (castling_rights P),
         (if enpassant_square P = NO_SQUARE then 0
          else HASH_ENPASSANT Z (file_of (enpassant_square P))),
         (if current_side P = WHITE then HASH_TURN Z else 0)))"
  by (auto simp add: state_keys_ok_def state_keys_def)

subsection \<open>Steps that move no piece\<close>

lemma do_move_begin_pieces_ok [simp]: "pieces_ok Z (do_move_begin Z P) = pieces_ok Z P"
  by (rule pieces_ok_cong)
     (simp_all add: do_move_begin_def Let_def change_current_side_def subkey_simps)

lemma do_move_counter_pieces_ok [simp]: "pieces_ok Z (do_move_counter a b P) = pieces_ok Z P"
  by (rule pieces_ok_cong) (simp_all add: do_move_counter_def)

lemma do_move_rights_pieces_ok [simp]:
  "pieces_ok Z (do_move_rights Z side m a b P) = pieces_ok Z P"
  by (rule pieces_ok_cong) (simp_all add: do_move_rights_def Let_def subkey_simps)

lemma do_move_new_enpassant_pieces_ok [simp]:
  "pieces_ok Z (do_move_new_enpassant Z side m a P) = pieces_ok Z P"
  by (rule pieces_ok_cong)
     (simp_all add: do_move_new_enpassant_def set_enpassant_square_def subkey_simps)

lemma push_history_pieces_ok [simp]: "pieces_ok Z (push_history P) = pieces_ok Z P"
  by (rule pieces_ok_cong) (simp_all add: push_history_def)

lemma state_steps_state_keys:
  "state_keys (do_move_begin Z P) =
     (castling_key (zobrist_hash P), 0, color_key (zobrist_hash P) XOR HASH_TURN Z)"
  "state_keys (do_move_counter a b P) = state_keys P"
  "state_keys (do_move_rights Z side m a b P) =
     (castling_hash Z (update_castling_rights side m a b (castling_rights P)),
      enpassant_key (zobrist_hash P), color_key (zobrist_hash P))"
  "state_keys (push_history P) = state_keys P"
  by (simp_all add: state_keys_def do_move_begin_def do_move_counter_def do_move_rights_def
        push_history_def Let_def change_current_side_def subkey_simps)


subsection \<open>Moves that the piece operations accept\<close>

text \<open>What \<^verbatim>\<open>do_move\<close> needs of a move for the assertions of \<^verbatim>\<open>move_piece\<close>,
  \<^verbatim>\<open>remove_piece\<close> and \<^verbatim>\<open>add_piece\<close> to hold, and \<^verbatim>\<open>undo_move\<close> to put the same pieces
  back; every legal move has it.\<close>

definition castling_ok :: "(square \<Rightarrow> piece) \<Rightarrow> color \<Rightarrow> move \<Rightarrow> bool" where
  "castling_ok b side m =
     (let r = (if side = WHITE then RANK_1 else RANK_8)
      in b (make_square r FILE_E) \<noteq> NO_PIECE \<and>
         (if castling m = KING_CASTLING
          then b (make_square r FILE_H) \<noteq> NO_PIECE \<and> b (make_square r FILE_F) = NO_PIECE \<and>
               b (make_square r FILE_G) = NO_PIECE
          else b (make_square r FILE_A) \<noteq> NO_PIECE \<and> b (make_square r FILE_C) = NO_PIECE \<and>
               b (make_square r FILE_D) = NO_PIECE))"

definition enpassant_ok :: "(square \<Rightarrow> piece) \<Rightarrow> color \<Rightarrow> move \<Rightarrow> bool" where
  "enpassant_ok b side m =
     (b (move_to m) = NO_PIECE \<and> promotion m = NO_PIECE_KIND \<and>
      (if side = WHITE then 8 \<le> move_to m else move_to m < 56) \<and>
      b (square_behind side (move_to m)) = make_piece (color_not side) PAWN)"

definition move_ok :: "position \<Rightarrow> move \<Rightarrow> bool" where
  "move_ok P m =
     (let side = current_side P; b = board P
      in if castling m \<noteq> NO_CASTLING then castling_ok b side m
         else b (move_from m) \<noteq> NO_PIECE \<and> get_color (b (move_from m)) = side \<and>
              (if get_piece_kind (b (move_from m)) = PAWN \<and> move_to m = enpassant_square P
               then enpassant_ok b side m
               else (b (move_to m) = NO_PIECE \<or> get_color (b (move_to m)) = color_not side) \<and>
                    (promotion m \<noteq> NO_PIECE_KIND \<longrightarrow> get_piece_kind (b (move_from m)) = PAWN)))"

lemma move_squares_less [simp]: "move_from m < 64" "move_to m < 64"
proof -
  have "move_from m = take_bit 6 m" "move_to m = take_bit 6 (drop_bit 6 m)"
    by (simp_all add: move_from_def move_to_def and_mask_nat)
  then show "move_from m < 64" "move_to m < 64"
    using take_bit_nat_less_exp[of 6 m] take_bit_nat_less_exp[of 6 "drop_bit 6 m"] by simp_all
qed

lemma color_not_neq [simp]: "color_not c \<noteq> c" "c \<noteq> color_not c"
  by (cases c; simp)+

lemma make_piece_eq_NO_PIECE [simp]:
  "(make_piece c k = NO_PIECE) = (k = NO_PIECE_KIND)"
  "(NO_PIECE = make_piece c k) = (k = NO_PIECE_KIND)"
  by (cases c; cases k; simp)+

lemma square_behind_less:
  "(if side = WHITE then 8 \<le> t else t < 56) \<Longrightarrow> t < 64 \<Longrightarrow> square_behind side t < 64"
  by (auto simp add: square_behind_def split: if_splits)

subsection \<open>The board after each step of \<^verbatim>\<open>do_move\<close>\<close>

lemmas castling_squares =
  make_square_def RANK_1_def RANK_8_def FILE_A_def FILE_C_def FILE_D_def FILE_E_def FILE_F_def
  FILE_G_def FILE_H_def

lemma do_move_castling_pieces_ok:
  assumes "pieces_ok Z P" "castling_ok (board P) side m"
  shows "pieces_ok Z (do_move_castling_pieces Z side m P)"
proof (cases "castling m = KING_CASTLING")
  case True
  let ?r = "if side = WHITE then RANK_1 else RANK_8"
  have 1: "pieces_ok Z (move_piece Z (make_square ?r FILE_E) (make_square ?r FILE_G) P)"
    using assms True
    by (intro move_piece_pieces_ok) (auto simp add: castling_ok_def Let_def castling_squares)
  have "pieces_ok Z (move_piece Z (make_square ?r FILE_H) (make_square ?r FILE_F)
          (move_piece Z (make_square ?r FILE_E) (make_square ?r FILE_G) P))"
    using assms True
    by (intro move_piece_pieces_ok 1)
       (auto simp add: castling_ok_def Let_def castling_squares move_piece_fields)
  then show ?thesis using True by (simp add: do_move_castling_pieces_def Let_def)
next
  case False
  let ?r = "if side = WHITE then RANK_1 else RANK_8"
  have 1: "pieces_ok Z (move_piece Z (make_square ?r FILE_E) (make_square ?r FILE_C) P)"
    using assms False
    by (intro move_piece_pieces_ok) (auto simp add: castling_ok_def Let_def castling_squares)
  have "pieces_ok Z (move_piece Z (make_square ?r FILE_A) (make_square ?r FILE_D)
          (move_piece Z (make_square ?r FILE_E) (make_square ?r FILE_C) P))"
    using assms False
    by (intro move_piece_pieces_ok 1)
       (auto simp add: castling_ok_def Let_def castling_squares move_piece_fields)
  then show ?thesis using False by (simp add: do_move_castling_pieces_def Let_def)
qed

lemma do_move_castling_pieces_state_keys [simp]:
  "state_keys (do_move_castling_pieces Z side m P) = state_keys P"
  by (simp add: do_move_castling_pieces_def Let_def)

lemma do_move_castling_ok:
  assumes "pieces_ok Z P" "castling_ok (board P) side m"
  shows "pieces_ok Z (do_move_castling Z side m P)"
proof -
  have "pieces_ok Z (do_move_castling Z side m P) =
        pieces_ok Z (do_move_castling_pieces Z side m (P\<lparr>half_move_counter := 0\<rparr>))"
    by (rule pieces_ok_cong)
       (simp_all add: do_move_castling_def Let_def set_enpassant_square_def subkey_simps)
  moreover have "pieces_ok Z (P\<lparr>half_move_counter := 0\<rparr>) = pieces_ok Z P"
    by (rule pieces_ok_cong) simp_all
  ultimately show ?thesis
    using do_move_castling_pieces_ok[of Z "P\<lparr>half_move_counter := 0\<rparr>" side m] assms by simp
qed

lemma do_move_enpassant_ok:
  assumes "pieces_ok Z P" "board P (move_from m) \<noteq> NO_PIECE"
    "get_color (board P (move_from m)) = side" "enpassant_ok (board P) side m"
  shows "pieces_ok Z (do_move_enpassant Z side m P)"
proof -
  have lt: "square_behind side (move_to m) < 64"
    using assms(4) by (intro square_behind_less) (simp_all add: enpassant_ok_def)
  have 1: "pieces_ok Z (move_piece Z (move_from m) (move_to m) P)"
    using assms by (intro move_piece_pieces_ok) (simp_all add: enpassant_ok_def)
  have behind: "board P (square_behind side (move_to m)) = make_piece (color_not side) PAWN"
    and empty: "board P (move_to m) = NO_PIECE"
    using assms(4) by (simp_all add: enpassant_ok_def)
  have ne: "square_behind side (move_to m) \<noteq> move_from m"
  proof
    assume "square_behind side (move_to m) = move_from m"
    then have "get_color (board P (move_from m)) = color_not side"
      using behind by simp
    then show False using assms(3) by simp
  qed
  have ne': "square_behind side (move_to m) \<noteq> move_to m"
  proof
    assume "square_behind side (move_to m) = move_to m"
    then show False using behind empty by simp
  qed
  show ?thesis
    unfolding do_move_enpassant_def
    using lt ne ne' behind
    by (intro remove_piece_pieces_ok 1) (simp_all add: move_piece_fields)
qed

lemma do_move_pieces_ok:
  assumes "pieces_ok Z P" "board P (move_from m) \<noteq> NO_PIECE"
    "get_color (board P (move_from m)) = side"
    "board P (move_to m) = NO_PIECE \<or> get_color (board P (move_to m)) = color_not side"
  shows "pieces_ok Z (do_move_pieces Z side m (board P (move_to m)) P)"
proof -
  define Pa where "Pa = (if board P (move_to m) \<noteq> NO_PIECE then remove_piece Z (move_to m) P else P)"
  have ft: "move_from m \<noteq> move_to m"
  proof
    assume e: "move_from m = move_to m"
    show False using assms(2,3,4) unfolding e by auto
  qed
  have Pa: "pieces_ok Z Pa"
  proof (cases "board P (move_to m) = NO_PIECE")
    case True
    then show ?thesis using assms(1) by (simp add: Pa_def)
  next
    case False
    then have "pieces_ok Z (remove_piece Z (move_to m) P)"
      using assms(1) by (intro remove_piece_pieces_ok) simp_all
    then show ?thesis using False by (simp add: Pa_def)
  qed
  have bf: "board Pa (move_from m) = board P (move_from m)"
    and bt: "board Pa (move_to m) = NO_PIECE"
    using ft by (auto simp add: Pa_def remove_piece_fields)
  show ?thesis
  proof (cases "promotion m \<noteq> NO_PIECE_KIND")
    case True
    have 1: "pieces_ok Z (remove_piece Z (move_from m) Pa)"
      using Pa bf assms by (intro remove_piece_pieces_ok) simp_all
    have "pieces_ok Z (add_piece Z (make_piece side (promotion m)) (move_to m)
            (remove_piece Z (move_from m) Pa))"
      using True bt ft by (intro add_piece_pieces_ok 1) (simp_all add: remove_piece_fields)
    then show ?thesis using True by (simp add: do_move_pieces_def Pa_def)
  next
    case False
    have "pieces_ok Z (move_piece Z (move_from m) (move_to m) Pa)"
      using Pa bf bt assms by (intro move_piece_pieces_ok) simp_all
    then show ?thesis using False by (simp add: do_move_pieces_def Pa_def)
  qed
qed

lemma do_move_normal_ok:
  assumes "pieces_ok Z P" "board P (move_from m) \<noteq> NO_PIECE"
    "get_color (board P (move_from m)) = side"
    "if get_piece_kind (board P (move_from m)) = PAWN \<and> move_to m = enpassant_square P
     then enpassant_ok (board P) side m
     else board P (move_to m) = NO_PIECE \<or> get_color (board P (move_to m)) = color_not side"
  shows "pieces_ok Z (snd (do_move_normal Z side m P))"
proof -
  let ?P1 = "do_move_counter (board P (move_from m)) (board P (move_to m)) P"
  have P1: "pieces_ok Z ?P1" using assms(1) by simp
  show ?thesis
  proof (cases "get_piece_kind (board P (move_from m)) = PAWN \<and> move_to m = enpassant_square P")
    case True
    then have "enpassant_ok (board P) side m"
      using assms(4) by simp
    then have "pieces_ok Z (do_move_enpassant Z side m ?P1)"
      using P1 assms(2,3) by (intro do_move_enpassant_ok) simp_all
    moreover have "snd (do_move_normal Z side m P) =
        do_move_new_enpassant Z side m (board P (move_from m)) (do_move_enpassant Z side m ?P1)"
      using True by (simp add: do_move_normal_def Let_def)
    ultimately show ?thesis by simp
  next
    case False
    then have "board P (move_to m) = NO_PIECE \<or> get_color (board P (move_to m)) = color_not side"
      using assms(4) by simp
    then have "pieces_ok Z (do_move_pieces Z side m (board ?P1 (move_to m)) ?P1)"
      using P1 assms(2,3) by (intro do_move_pieces_ok) simp_all
    then have "pieces_ok Z (do_move_pieces Z side m (board P (move_to m)) ?P1)"
      by simp
    moreover have "snd (do_move_normal Z side m P) =
        do_move_new_enpassant Z side m (board P (move_from m))
          (do_move_rights Z side m (board P (move_from m)) (board P (move_to m))
             (do_move_pieces Z side m (board P (move_to m)) ?P1))"
      using False by (auto simp add: do_move_normal_def Let_def)
    ultimately show ?thesis by simp
  qed
qed

lemma move_ok_castling: "castling m \<noteq> NO_CASTLING \<Longrightarrow> move_ok P m = castling_ok (board P) (current_side P) m"
  by (simp add: move_ok_def Let_def)

lemma move_ok_normal:
  "castling m = NO_CASTLING \<Longrightarrow>
     move_ok P m =
       (board P (move_from m) \<noteq> NO_PIECE \<and> get_color (board P (move_from m)) = current_side P \<and>
        (if get_piece_kind (board P (move_from m)) = PAWN \<and> move_to m = enpassant_square P
         then enpassant_ok (board P) (current_side P) m
         else (board P (move_to m) = NO_PIECE \<or>
               get_color (board P (move_to m)) = color_not (current_side P)) \<and>
              (promotion m \<noteq> NO_PIECE_KIND \<longrightarrow> get_piece_kind (board P (move_from m)) = PAWN)))"
  by (simp add: move_ok_def Let_def)

lemma do_move_pieces_ok_all:
  assumes "pieces_ok Z P" "move_ok P m"
  shows "pieces_ok Z (snd (do_move Z m P))"
proof (cases "castling m \<noteq> NO_CASTLING")
  case True
  then have "castling_ok (board P) (current_side P) m"
    using assms(2) by (simp add: move_ok_castling)
  then have "pieces_ok Z (do_move_castling Z (current_side P) m (do_move_begin Z P))"
    using assms(1) by (intro do_move_castling_ok) simp_all
  then show ?thesis using True by (simp add: do_move_def Let_def)
next
  case False
  then have c: "castling m = NO_CASTLING" by simp
  note ok = assms(2)[unfolded move_ok_normal[OF c]]
  have full: "board P (move_from m) \<noteq> NO_PIECE"
    and own: "get_color (board P (move_from m)) = current_side P"
    and rest: "if get_piece_kind (board P (move_from m)) = PAWN \<and> move_to m = enpassant_square P
         then enpassant_ok (board P) (current_side P) m
         else (board P (move_to m) = NO_PIECE \<or>
               get_color (board P (move_to m)) = color_not (current_side P)) \<and>
              (promotion m \<noteq> NO_PIECE_KIND \<longrightarrow> get_piece_kind (board P (move_from m)) = PAWN)"
    using ok by blast+
  have b: "board (do_move_begin Z P) = board P"
    and e: "enpassant_square (do_move_begin Z P) = enpassant_square P"
    by simp_all
  have "pieces_ok Z (snd (do_move_normal Z (current_side P) m (do_move_begin Z P)))"
  proof (rule do_move_normal_ok; (unfold b e)?)
    show "pieces_ok Z (do_move_begin Z P)" using assms(1) by simp
    show "board P (move_from m) \<noteq> NO_PIECE" by (rule full)
    show "get_color (board P (move_from m)) = current_side P" by (rule own)
    show "if get_piece_kind (board P (move_from m)) = PAWN \<and> move_to m = enpassant_square P
          then enpassant_ok (board P) (current_side P) m
          else board P (move_to m) = NO_PIECE \<or>
               get_color (board P (move_to m)) = color_not (current_side P)"
    proof (cases "get_piece_kind (board P (move_from m)) = PAWN \<and> move_to m = enpassant_square P")
      case True
      show ?thesis using rest[unfolded if_P[OF True]] unfolding if_P[OF True] .
    next
      case False
      show ?thesis using rest[unfolded if_not_P[OF False]] unfolding if_not_P[OF False]
        by (rule conjunct1)
    qed
  qed
  then show ?thesis using c by (simp add: do_move_def Let_def)
qed


subsection \<open>The state subkeys through \<^verbatim>\<open>do_move\<close>\<close>

lemma piece_ops_subkeys [simp]:
  "castling_key (zobrist_hash (add_piece Z p sq P)) = castling_key (zobrist_hash P)"
  "enpassant_key (zobrist_hash (add_piece Z p sq P)) = enpassant_key (zobrist_hash P)"
  "color_key (zobrist_hash (add_piece Z p sq P)) = color_key (zobrist_hash P)"
  "castling_key (zobrist_hash (remove_piece Z sq P)) = castling_key (zobrist_hash P)"
  "enpassant_key (zobrist_hash (remove_piece Z sq P)) = enpassant_key (zobrist_hash P)"
  "color_key (zobrist_hash (remove_piece Z sq P)) = color_key (zobrist_hash P)"
  "castling_key (zobrist_hash (move_piece Z f t P)) = castling_key (zobrist_hash P)"
  "enpassant_key (zobrist_hash (move_piece Z f t P)) = enpassant_key (zobrist_hash P)"
  "color_key (zobrist_hash (move_piece Z f t P)) = color_key (zobrist_hash P)"
  by (simp_all add: add_piece_fields remove_piece_fields move_piece_fields subkey_simps)

lemma do_move_piece_steps_subkeys [simp]:
  "castling_key (zobrist_hash (do_move_castling_pieces Z side m P)) = castling_key (zobrist_hash P)"
  "enpassant_key (zobrist_hash (do_move_castling_pieces Z side m P)) = enpassant_key (zobrist_hash P)"
  "color_key (zobrist_hash (do_move_castling_pieces Z side m P)) = color_key (zobrist_hash P)"
  "castling_key (zobrist_hash (do_move_enpassant Z side m P)) = castling_key (zobrist_hash P)"
  "enpassant_key (zobrist_hash (do_move_enpassant Z side m P)) = enpassant_key (zobrist_hash P)"
  "color_key (zobrist_hash (do_move_enpassant Z side m P)) = color_key (zobrist_hash P)"
  "castling_key (zobrist_hash (do_move_pieces Z side m c P)) = castling_key (zobrist_hash P)"
  "enpassant_key (zobrist_hash (do_move_pieces Z side m c P)) = enpassant_key (zobrist_hash P)"
  "color_key (zobrist_hash (do_move_pieces Z side m c P)) = color_key (zobrist_hash P)"
  by (simp_all add: do_move_castling_pieces_def do_move_enpassant_def do_move_pieces_def Let_def)

lemma do_move_state_steps_subkeys [simp]:
  "castling_key (zobrist_hash (do_move_begin Z P)) = castling_key (zobrist_hash P)"
  "enpassant_key (zobrist_hash (do_move_begin Z P)) = 0"
  "color_key (zobrist_hash (do_move_begin Z P)) = color_key (zobrist_hash P) XOR HASH_TURN Z"
  "zobrist_hash (do_move_counter a b P) = zobrist_hash P"
  "castling_key (zobrist_hash (do_move_rights Z side m a b P)) =
     castling_hash Z (update_castling_rights side m a b (castling_rights P))"
  "enpassant_key (zobrist_hash (do_move_rights Z side m a b P)) = enpassant_key (zobrist_hash P)"
  "color_key (zobrist_hash (do_move_rights Z side m a b P)) = color_key (zobrist_hash P)"
  "castling_key (zobrist_hash (do_move_new_enpassant Z side m a P)) = castling_key (zobrist_hash P)"
  "color_key (zobrist_hash (do_move_new_enpassant Z side m a P)) = color_key (zobrist_hash P)"
  "castling_key (zobrist_hash (do_move_castling Z side m P)) =
     castling_hash Z (castling_rights P AND castling_not (CASTLING_RIGHTS side))"
  "enpassant_key (zobrist_hash (do_move_castling Z side m P)) = enpassant_key (zobrist_hash P)"
  "color_key (zobrist_hash (do_move_castling Z side m P)) = color_key (zobrist_hash P)"
  by (simp_all add: do_move_begin_def do_move_counter_def do_move_rights_def
        do_move_new_enpassant_def do_move_castling_def set_enpassant_square_def Let_def
        change_current_side_def subkey_simps)

text \<open>The en-passant square and its subkey leave \<^verbatim>\<open>do_move\<close> together.\<close>

definition double_push :: "color \<Rightarrow> move \<Rightarrow> piece \<Rightarrow> bool" where
  "double_push side m moved_pc =
     (get_piece_kind moved_pc = PAWN \<and>
      rank_of (move_from m) = (if side = WHITE then RANK_2 else RANK_7) \<and>
      rank_of (move_to m) = (if side = WHITE then RANK_4 else RANK_5))"

lemma do_move_new_enpassant_square:
  "enpassant_square (do_move_new_enpassant Z side m a P) =
     (if double_push side m a then square_behind side (move_to m) else NO_SQUARE)"
  "enpassant_key (zobrist_hash (do_move_new_enpassant Z side m a P)) =
     (if double_push side m a then HASH_ENPASSANT Z (file_of (square_behind side (move_to m)))
      else enpassant_key (zobrist_hash P))"
  by (simp_all add: do_move_new_enpassant_def double_push_def set_enpassant_square_def
        subkey_simps)

lemma double_push_square: "double_push side m a \<Longrightarrow> square_behind side (move_to m) \<noteq> NO_SQUARE"
  by (cases side)
     (auto simp add: double_push_def square_behind_def rank_of_def NO_SQUARE_def RANK_4_def
        RANK_5_def)

lemma do_move_normal_state:
  "enpassant_square (snd (do_move_normal Z side m P)) =
     (if double_push side m (board P (move_from m)) then square_behind side (move_to m)
      else NO_SQUARE)"
  "enpassant_key (zobrist_hash (snd (do_move_normal Z side m P))) =
     (if double_push side m (board P (move_from m))
      then HASH_ENPASSANT Z (file_of (square_behind side (move_to m)))
      else enpassant_key (zobrist_hash P))"
  "color_key (zobrist_hash (snd (do_move_normal Z side m P))) = color_key (zobrist_hash P)"
  "castling_key (zobrist_hash (snd (do_move_normal Z side m P))) =
     (if get_piece_kind (board P (move_from m)) = PAWN \<and> move_to m = enpassant_square P
      then castling_key (zobrist_hash P)
      else castling_hash Z (update_castling_rights side m (board P (move_from m))
             (board P (move_to m)) (castling_rights P)))"
  by (simp_all add: do_move_normal_def Let_def do_move_new_enpassant_square)

lemma do_move_current_side: "current_side (snd (do_move Z m P)) = color_not (current_side P)"
  by (simp add: do_move_def Let_def do_move_normal_fields)

lemma color_key_flip:
  "(if c = WHITE then T else 0) XOR T = (if color_not c = WHITE then T else (0 :: 64 word))"
  by (cases c) simp_all

lemma do_move_state:
  "enpassant_square (snd (do_move Z m P)) =
     (if castling m = NO_CASTLING \<and> double_push (current_side P) m (board P (move_from m))
      then square_behind (current_side P) (move_to m) else NO_SQUARE)"
  "enpassant_key (zobrist_hash (snd (do_move Z m P))) =
     (if castling m = NO_CASTLING \<and> double_push (current_side P) m (board P (move_from m))
      then HASH_ENPASSANT Z (file_of (square_behind (current_side P) (move_to m))) else 0)"
  "color_key (zobrist_hash (snd (do_move Z m P))) = color_key (zobrist_hash P) XOR HASH_TURN Z"
  "castling_key (zobrist_hash (snd (do_move Z m P))) =
     (if castling m \<noteq> NO_CASTLING
      then castling_hash Z (castling_rights P AND castling_not (CASTLING_RIGHTS (current_side P)))
      else if get_piece_kind (board P (move_from m)) = PAWN \<and> move_to m = enpassant_square P
           then castling_key (zobrist_hash P)
           else castling_hash Z (update_castling_rights (current_side P) m (board P (move_from m))
                  (board P (move_to m)) (castling_rights P)))"
  by (simp_all add: do_move_def Let_def do_move_normal_state)

lemma do_move_state_keys_ok:
  assumes "state_keys_ok Z P"
  shows "state_keys_ok Z (snd (do_move Z m P))"
  using assms
  by (simp add: state_keys_ok_def do_move_current_side do_move_castling_rights do_move_state
        color_key_flip double_push_square)

lemma do_move_consistent:
  "consistent Z P \<Longrightarrow> move_ok P m \<Longrightarrow> consistent Z (snd (do_move Z m P))"
  by (simp add: consistent_pieces_ok do_move_pieces_ok_all do_move_state_keys_ok)

subsection \<open>Null moves\<close>


lemma last_enpassant_square_less: "last_enpassant_square mi < 64"
proof -
  have "last_enpassant_square mi = take_bit 6 (drop_bit 7 mi)"
    by (simp add: last_enpassant_square_def and_mask_nat)
  then show ?thesis using take_bit_nat_less_exp[of 6 "drop_bit 7 mi"] by simp
qed

lemma last_enpassant_square_set [simp]: "last_enpassant_square mi \<noteq> NO_SQUARE"
  using last_enpassant_square_less[of mi] by (simp add: NO_SQUARE_def)



subsection \<open>Undo records that the piece operations accept\<close>

text \<open>What \<^verbatim>\<open>undo_move\<close> needs of the position, the move and the undo record for the
  assertions of the piece operations to hold: the moved piece stands on the target
  square (the king and the rook on their castled squares), and the squares it puts
  pieces on are empty.\<close>

definition undo_castling_ok :: "(square \<Rightarrow> piece) \<Rightarrow> color \<Rightarrow> move \<Rightarrow> bool" where
  "undo_castling_ok b side m =
     (let r = (if side = WHITE then RANK_1 else RANK_8)
      in b (make_square r FILE_E) = NO_PIECE \<and>
         (if castling m = KING_CASTLING
          then b (make_square r FILE_G) \<noteq> NO_PIECE \<and> b (make_square r FILE_F) \<noteq> NO_PIECE \<and>
               b (make_square r FILE_H) = NO_PIECE
          else b (make_square r FILE_C) \<noteq> NO_PIECE \<and> b (make_square r FILE_D) \<noteq> NO_PIECE \<and>
               b (make_square r FILE_A) = NO_PIECE))"

definition undo_ok :: "position \<Rightarrow> move \<Rightarrow> moveinfo \<Rightarrow> bool" where
  "undo_ok P m mi =
     (let side = color_not (current_side P); b = board P
      in if castling m \<noteq> NO_CASTLING then undo_castling_ok b side m
         else b (move_to m) \<noteq> NO_PIECE \<and> b (move_from m) = NO_PIECE \<and>
              (enpassant mi \<longrightarrow>
                 (if side = WHITE then 8 \<le> move_to m else move_to m < 56) \<and>
                 b (square_behind side (move_to m)) = NO_PIECE \<and>
                 square_behind side (move_to m) \<noteq> move_from m))"

subsection \<open>\<^verbatim>\<open>undo_move\<close> keeps the position consistent\<close>

lemma undo_move_state_frame [simp]:
  "board (undo_move_state Z mi P) = board P"
  "piece_count (undo_move_state Z mi P) = piece_count P"
  "piece_position (undo_move_state Z mi P) = piece_position P"
  "by_color_bb (undo_move_state Z mi P) = by_color_bb P"
  "by_piece_kind_bb (undo_move_state Z mi P) = by_piece_kind_bb P"
  "current_side (undo_move_state Z mi P) = color_not (current_side P)"
  "castling_rights (undo_move_state Z mi P) = last_castling mi"
  "enpassant_square (undo_move_state Z mi P) = last_enpassant_square mi"
  "half_move_counter (undo_move_state Z mi P) = half_move_counter_of mi"
  "ply_counter (undo_move_state Z mi P) = ply_counter P - 1"
  "history (undo_move_state Z mi P) = history P"
  "history_counter (undo_move_state Z mi P) = history_counter P"
  by (simp_all add: undo_move_state_def Let_def set_enpassant_square_def change_current_side_def)

lemma undo_move_state_subkeys [simp]:
  "pawn_key (zobrist_hash (undo_move_state Z mi P)) = pawn_key (zobrist_hash P)"
  "piece_key (zobrist_hash (undo_move_state Z mi P)) = piece_key (zobrist_hash P)"
  "castling_key (zobrist_hash (undo_move_state Z mi P)) = castling_hash Z (last_castling mi)"
  "enpassant_key (zobrist_hash (undo_move_state Z mi P)) =
     HASH_ENPASSANT Z (file_of (last_enpassant_square mi))"
  "color_key (zobrist_hash (undo_move_state Z mi P)) = color_key (zobrist_hash P) XOR HASH_TURN Z"
  by (simp_all add: undo_move_state_def Let_def set_enpassant_square_def change_current_side_def
        subkey_simps)

lemma undo_move_state_pieces_ok [simp]: "pieces_ok Z (undo_move_state Z mi P) = pieces_ok Z P"
  by (rule pieces_ok_cong) simp_all

lemma undo_move_castling_ok:
  assumes "pieces_ok Z P" "undo_castling_ok (board P) side m"
  shows "pieces_ok Z (undo_move_castling Z side m P)"
proof (cases "castling m = KING_CASTLING")
  case True
  let ?r = "if side = WHITE then RANK_1 else RANK_8"
  have 1: "pieces_ok Z (move_piece Z (make_square ?r FILE_G) (make_square ?r FILE_E) P)"
    using assms True
    by (intro move_piece_pieces_ok) (auto simp add: undo_castling_ok_def Let_def castling_squares)
  have "pieces_ok Z (move_piece Z (make_square ?r FILE_F) (make_square ?r FILE_H)
          (move_piece Z (make_square ?r FILE_G) (make_square ?r FILE_E) P))"
    using assms True
    by (intro move_piece_pieces_ok 1)
       (auto simp add: undo_castling_ok_def Let_def castling_squares move_piece_fields)
  then show ?thesis using True by (simp add: undo_move_castling_def Let_def)
next
  case False
  let ?r = "if side = WHITE then RANK_1 else RANK_8"
  have 1: "pieces_ok Z (move_piece Z (make_square ?r FILE_C) (make_square ?r FILE_E) P)"
    using assms False
    by (intro move_piece_pieces_ok) (auto simp add: undo_castling_ok_def Let_def castling_squares)
  have "pieces_ok Z (move_piece Z (make_square ?r FILE_D) (make_square ?r FILE_A)
          (move_piece Z (make_square ?r FILE_C) (make_square ?r FILE_E) P))"
    using assms False
    by (intro move_piece_pieces_ok 1)
       (auto simp add: undo_castling_ok_def Let_def castling_squares move_piece_fields)
  then show ?thesis using False by (simp add: undo_move_castling_def Let_def)
qed

lemma undo_move_normal_ok:
  assumes ok: "pieces_ok Z P" and full: "board P (move_to m) \<noteq> NO_PIECE"
    and empty: "board P (move_from m) = NO_PIECE"
    and ep: "enpassant mi \<Longrightarrow>
               (if side = WHITE then 8 \<le> move_to m else move_to m < 56) \<and>
               board P (square_behind side (move_to m)) = NO_PIECE \<and>
               square_behind side (move_to m) \<noteq> move_from m"
  shows "pieces_ok Z (undo_move_normal Z side m mi P)"
proof -
  define Pa where "Pa = (if enpassant mi
     then add_piece Z (make_piece (color_not side) PAWN) (square_behind side (move_to m)) P else P)"
  define Pb where "Pb = (if promotion m \<noteq> NO_PIECE_KIND
     then remove_piece Z (move_to m) (add_piece Z (make_piece side PAWN) (move_from m) Pa)
     else move_piece Z (move_to m) (move_from m) Pa)"
  have ft: "move_to m \<noteq> move_from m" using full empty by auto
  have Pa: "pieces_ok Z Pa"
  proof (cases "enpassant mi")
    case True
    have "square_behind side (move_to m) < 64"
      using ep[OF True] by (intro square_behind_less) simp_all
    then have "pieces_ok Z (add_piece Z (make_piece (color_not side) PAWN)
                 (square_behind side (move_to m)) P)"
      using ok ep[OF True] by (intro add_piece_pieces_ok) simp_all
    then show ?thesis using True by (simp add: Pa_def)
  next
    case False
    then show ?thesis using ok by (simp add: Pa_def)
  qed
  have bt: "board Pa (move_to m) = board P (move_to m)"
  proof (cases "enpassant mi")
    case True
    then have "square_behind side (move_to m) \<noteq> move_to m" using ep full by auto
    then show ?thesis using True by (simp add: Pa_def add_piece_fields)
  next
    case False
    then show ?thesis by (simp add: Pa_def)
  qed
  have bf: "board Pa (move_from m) = NO_PIECE"
  proof (cases "enpassant mi")
    case True
    then have "square_behind side (move_to m) \<noteq> move_from m" using ep by auto
    then show ?thesis using True empty by (simp add: Pa_def add_piece_fields)
  next
    case False
    then show ?thesis using empty by (simp add: Pa_def)
  qed
  have Pb: "pieces_ok Z Pb"
  proof (cases "promotion m \<noteq> NO_PIECE_KIND")
    case True
    have 1: "pieces_ok Z (add_piece Z (make_piece side PAWN) (move_from m) Pa)"
      using Pa bf by (intro add_piece_pieces_ok) simp_all
    have "pieces_ok Z (remove_piece Z (move_to m) (add_piece Z (make_piece side PAWN) (move_from m) Pa))"
      using bt full ft by (intro remove_piece_pieces_ok 1) (simp_all add: add_piece_fields)
    then show ?thesis using True by (simp add: Pb_def)
  next
    case False
    have "pieces_ok Z (move_piece Z (move_to m) (move_from m) Pa)"
      using Pa bt bf full by (intro move_piece_pieces_ok) simp_all
    then show ?thesis using False by (simp add: Pb_def)
  qed
  have bt': "board Pb (move_to m) = NO_PIECE"
    using ft by (simp add: Pb_def add_piece_fields remove_piece_fields move_piece_fields)
  have eq: "undo_move_normal Z side m mi P =
      (if make_piece (color_not side) (captured_piece mi) \<noteq> NO_PIECE
       then add_piece Z (make_piece (color_not side) (captured_piece mi)) (move_to m) Pb
       else Pb)"
    by (simp add: undo_move_normal_def Let_def Pa_def Pb_def)
  have "pieces_ok Z (if make_piece (color_not side) (captured_piece mi) \<noteq> NO_PIECE
                     then add_piece Z (make_piece (color_not side) (captured_piece mi)) (move_to m) Pb
                     else Pb)"
  proof (cases "make_piece (color_not side) (captured_piece mi) \<noteq> NO_PIECE")
    case True
    then have "pieces_ok Z (add_piece Z (make_piece (color_not side) (captured_piece mi)) (move_to m) Pb)"
      using Pb bt' by (intro add_piece_pieces_ok) simp_all
    then show ?thesis using True by simp
  next
    case False
    then show ?thesis using Pb by simp
  qed
  then show ?thesis unfolding eq .
qed

lemma undo_move_pieces_ok:
  assumes "pieces_ok Z P" "undo_ok P m mi"
  shows "pieces_ok Z (undo_move Z m mi P)"
proof -
  let ?P7 = "undo_move_state Z mi P"
  let ?side = "color_not (current_side P)"
  have "pieces_ok Z (if castling m \<noteq> NO_CASTLING then undo_move_castling Z ?side m ?P7
                     else undo_move_normal Z ?side m mi ?P7)"
  proof (cases "castling m \<noteq> NO_CASTLING")
    case True
    then have "undo_castling_ok (board P) ?side m"
      using assms(2) by (simp add: undo_ok_def Let_def)
    then have "pieces_ok Z (undo_move_castling Z ?side m ?P7)"
      using assms(1) by (intro undo_move_castling_ok) simp_all
    then show ?thesis using True by simp
  next
    case False
    then have u: "board P (move_to m) \<noteq> NO_PIECE \<and> board P (move_from m) = NO_PIECE \<and>
              (enpassant mi \<longrightarrow>
                 (if ?side = WHITE then 8 \<le> move_to m else move_to m < 56) \<and>
                 board P (square_behind ?side (move_to m)) = NO_PIECE \<and>
                 square_behind ?side (move_to m) \<noteq> move_from m)"
      using assms(2) by (simp add: undo_ok_def Let_def)
    have "pieces_ok Z (undo_move_normal Z ?side m mi ?P7)"
    proof (rule undo_move_normal_ok)
      show "pieces_ok Z ?P7" using assms(1) by simp
      show "board ?P7 (move_to m) \<noteq> NO_PIECE" using u by simp
      show "board ?P7 (move_from m) = NO_PIECE" using u by simp
      show "(if ?side = WHITE then 8 \<le> move_to m else move_to m < 56) \<and>
            board ?P7 (square_behind ?side (move_to m)) = NO_PIECE \<and>
            square_behind ?side (move_to m) \<noteq> move_from m" if "enpassant mi"
        using u that by simp
    qed
    then show ?thesis using False by simp
  qed
  moreover have "pieces_ok Z (undo_move Z m mi P) =
      pieces_ok Z (if castling m \<noteq> NO_CASTLING then undo_move_castling Z ?side m ?P7
                   else undo_move_normal Z ?side m mi ?P7)"
    by (rule pieces_ok_cong) (simp_all add: undo_move_def Let_def)
  ultimately show ?thesis by simp
qed

lemma undo_piece_steps_subkeys [simp]:
  "castling_key (zobrist_hash (undo_move_castling Z side m P)) = castling_key (zobrist_hash P)"
  "enpassant_key (zobrist_hash (undo_move_castling Z side m P)) = enpassant_key (zobrist_hash P)"
  "color_key (zobrist_hash (undo_move_castling Z side m P)) = color_key (zobrist_hash P)"
  "castling_key (zobrist_hash (undo_move_normal Z side m mi P)) = castling_key (zobrist_hash P)"
  "enpassant_key (zobrist_hash (undo_move_normal Z side m mi P)) = enpassant_key (zobrist_hash P)"
  "color_key (zobrist_hash (undo_move_normal Z side m mi P)) = color_key (zobrist_hash P)"
  by (simp_all add: undo_move_castling_def undo_move_normal_def Let_def)

lemma undo_piece_steps_frame [simp]:
  "current_side (undo_move_castling Z side m P) = current_side P"
  "castling_rights (undo_move_castling Z side m P) = castling_rights P"
  "enpassant_square (undo_move_castling Z side m P) = enpassant_square P"
  "half_move_counter (undo_move_castling Z side m P) = half_move_counter P"
  "ply_counter (undo_move_castling Z side m P) = ply_counter P"
  "history_counter (undo_move_castling Z side m P) = history_counter P"
  "current_side (undo_move_normal Z side m mi P) = current_side P"
  "castling_rights (undo_move_normal Z side m mi P) = castling_rights P"
  "enpassant_square (undo_move_normal Z side m mi P) = enpassant_square P"
  "half_move_counter (undo_move_normal Z side m mi P) = half_move_counter P"
  "ply_counter (undo_move_normal Z side m mi P) = ply_counter P"
  "history_counter (undo_move_normal Z side m mi P) = history_counter P"
  by (simp_all add: undo_move_castling_def undo_move_normal_def Let_def)

lemma undo_move_state_fields:
  "current_side (undo_move Z m mi P) = color_not (current_side P)"
  "castling_rights (undo_move Z m mi P) = last_castling mi"
  "enpassant_square (undo_move Z m mi P) = last_enpassant_square mi"
  "half_move_counter (undo_move Z m mi P) = half_move_counter_of mi"
  "ply_counter (undo_move Z m mi P) = ply_counter P - 1"
  "history_counter (undo_move Z m mi P) = history_counter P - 1"
  "castling_key (zobrist_hash (undo_move Z m mi P)) = castling_hash Z (last_castling mi)"
  "enpassant_key (zobrist_hash (undo_move Z m mi P)) =
     HASH_ENPASSANT Z (file_of (last_enpassant_square mi))"
  "color_key (zobrist_hash (undo_move Z m mi P)) = color_key (zobrist_hash P) XOR HASH_TURN Z"
  by (simp_all add: undo_move_def Let_def)

lemma undo_move_state_keys_ok:
  assumes "state_keys_ok Z P"
  shows "state_keys_ok Z (undo_move Z m mi P)"
  using assms by (simp add: state_keys_ok_def undo_move_state_fields color_key_flip)

lemma undo_move_consistent:
  "consistent Z P \<Longrightarrow> undo_ok P m mi \<Longrightarrow> consistent Z (undo_move Z m mi P)"
  by (simp add: consistent_pieces_ok undo_move_pieces_ok undo_move_state_keys_ok)


subsection \<open>The key of a consistent position\<close>

definition pieces_key :: "zobrist_table \<Rightarrow> (square \<Rightarrow> piece) \<Rightarrow> 64 word" where
  "pieces_key Z b = fold (\<lambda>p k. k XOR board_key Z b p) all_pieces 0"

definition enpassant_subkey :: "zobrist_table \<Rightarrow> position \<Rightarrow> 64 word" where
  "enpassant_subkey Z P =
     (if enpassant_square P = NO_SQUARE then 0
      else HASH_ENPASSANT Z (file_of (enpassant_square P)))"

definition turn_subkey :: "zobrist_table \<Rightarrow> position \<Rightarrow> 64 word" where
  "turn_subkey Z P = (if current_side P = WHITE then HASH_TURN Z else 0)"

lemma piece_keys_pieces_key:
  "piece_keys_ok Z b h \<Longrightarrow> pawn_key h XOR piece_key h = pieces_key Z b"
  by (simp add: piece_keys_ok_def pieces_key_def all_pieces_def xor.assoc xor.left_commute
        xor.commute)

lemma consistent_hash:
  assumes "consistent Z P"
  shows "hash P = pieces_key Z (board P) XOR castling_hash Z (castling_rights P) XOR
                  enpassant_subkey Z P XOR turn_subkey Z P"
proof -
  have "pawn_key (zobrist_hash P) XOR piece_key (zobrist_hash P) = pieces_key Z (board P)"
    using assms by (intro piece_keys_pieces_key) (simp add: consistent_def)
  moreover have "castling_key (zobrist_hash P) = castling_hash Z (castling_rights P)"
    "enpassant_key (zobrist_hash P) = enpassant_subkey Z P"
    "color_key (zobrist_hash P) = turn_subkey Z P"
    using assms by (simp_all add: consistent_def state_keys_ok_def enpassant_subkey_def turn_subkey_def)
  moreover have "hash P =
      (pawn_key (zobrist_hash P) XOR piece_key (zobrist_hash P)) XOR
      castling_key (zobrist_hash P) XOR enpassant_key (zobrist_hash P) XOR
      color_key (zobrist_hash P)"
    by (simp add: hash_def get_key_def xor.assoc xor.left_commute xor.commute)
  ultimately show ?thesis by (simp only:)
qed




subsection \<open>The constructor builds a consistent position\<close>

text \<open>The board field of a FEN string is well formed when every character that is
  neither a slash nor a digit names a piece and is put on an empty square of the board.\<close>

fun fen_board_ok :: "string \<Rightarrow> int \<Rightarrow> (square \<Rightarrow> piece) \<Rightarrow> bool" where
  "fen_board_ok [] sq b = True"
| "fen_board_ok (c # cs) sq b =
     (if c = CHR ''/'' then fen_board_ok cs (sq - 16) b
      else if (48 :: nat) \<le> of_char c \<and> of_char c \<le> (57 :: nat)
      then fen_board_ok cs (sq + (int (of_char c) - 48)) b
      else char_to_piece c \<noteq> NO_PIECE \<and> 0 \<le> sq \<and> sq < 64 \<and> b (nat sq) = NO_PIECE \<and>
           fen_board_ok cs (sq + 1) (b(nat sq := char_to_piece c)))"

lemma lists_ok_cong:
  "board P' = board P \<Longrightarrow> piece_count P' = piece_count P \<Longrightarrow>
   piece_position P' = piece_position P \<Longrightarrow> lists_ok P' = lists_ok P"
  by (simp add: lists_ok_def)

lemma bitboards_ok_cong:
  "board P' = board P \<Longrightarrow> by_color_bb P' = by_color_bb P \<Longrightarrow>
   by_piece_kind_bb P' = by_piece_kind_bb P \<Longrightarrow> bitboards_ok P' = bitboards_ok P"
  by (simp add: bitboards_ok_def)

lemma put_piece_fields:
  "board (put_piece p sq P) = (board P)(sq := p)"
  "piece_count (put_piece p sq P) = piece_count (add_piece Z p sq P)"
  "piece_position (put_piece p sq P) = piece_position (add_piece Z p sq P)"
  "by_color_bb (put_piece p sq P) = by_color_bb (add_piece Z p sq P)"
  "by_piece_kind_bb (put_piece p sq P) = by_piece_kind_bb (add_piece Z p sq P)"
  by (simp_all add: put_piece_def add_piece_def)

lemma put_piece_as_add_piece:
  "lists_ok (put_piece p sq P) = lists_ok (add_piece Z p sq P)"
  "bitboards_ok (put_piece p sq P) = bitboards_ok (add_piece Z p sq P)"
  by (rule lists_ok_cong bitboards_ok_cong;
      simp add: put_piece_fields(1) put_piece_fields(2-5)[where Z = Z] add_piece_fields)+

lemma put_piece_ok:
  assumes "lists_ok P" "bitboards_ok P" "sq < 64" "board P sq = NO_PIECE" "p \<noteq> NO_PIECE"
  shows "lists_ok (put_piece p sq P)" "bitboards_ok (put_piece p sq P)"
proof -
  fix Z :: zobrist_table
  show "lists_ok (put_piece p sq P)"
    using add_piece_lists_ok[OF assms(1,3,4,5), of Z]
    by (simp add: put_piece_as_add_piece(1)[where Z = Z])
  show "bitboards_ok (put_piece p sq P)"
    using add_piece_bitboards_ok[OF assms(2,3,4,5), of Z]
    by (simp add: put_piece_as_add_piece(2)[where Z = Z])
qed

lemma fen_board_lists:
  "lists_ok P \<Longrightarrow> bitboards_ok P \<Longrightarrow> fen_board_ok cs sq (board P) \<Longrightarrow>
     lists_ok (fen_board cs sq P) \<and> bitboards_ok (fen_board cs sq P)"
proof (induction cs sq P rule: fen_board.induct)
  case (1 sq P)
  then show ?case by simp
next
  case (2 c cs sq P)
  show ?case
  proof (cases "c = CHR ''/''")
    case True
    then show ?thesis using 2 by simp
  next
    case slash: False
    show ?thesis
    proof (cases "(48 :: nat) \<le> of_char c \<and> of_char c \<le> (57 :: nat)")
      case True
      then show ?thesis using 2 slash by simp
    next
      case False
      have ok: "char_to_piece c \<noteq> NO_PIECE" "0 \<le> sq" "sq < 64" "board P (nat sq) = NO_PIECE"
        "fen_board_ok cs (sq + 1) ((board P)(nat sq := char_to_piece c))"
        using "2.prems"(3) slash False by simp_all
      have lt: "nat sq < 64" using ok(2,3) by simp
      have "lists_ok (put_piece (char_to_piece c) (nat sq) P)"
        "bitboards_ok (put_piece (char_to_piece c) (nat sq) P)"
        using put_piece_ok[OF "2.prems"(1,2) lt ok(4,1)] by simp_all
      moreover have "fen_board_ok cs (sq + 1) (board (put_piece (char_to_piece c) (nat sq) P))"
        using ok(5) by (simp add: put_piece_fields)
      moreover have "fen_board (c # cs) sq P =
          fen_board cs (sq + 1) (put_piece (char_to_piece c) (nat sq) P)"
        using slash False by auto
      ultimately show ?thesis
        using "2.IH"(3)[OF slash False] by simp
    qed
  qed
qed

lemma cleared_position_ok: "lists_ok cleared_position" "bitboards_ok cleared_position"
  by (auto simp add: lists_ok_def bitboards_ok_def cleared_position_def)

text \<open>\<^verbatim>\<open>HashKey::init\<close> on the zero key of a position with well-formed piece lists.\<close>

lemma hashkey_init_keys:
  assumes "lists_ok P"
  shows "piece_keys_ok Z (board P) (hashkey_init Z P HashKey)"
    "castling_key (hashkey_init Z P HashKey) = castling_hash Z (castling_rights P)"
    "enpassant_key (hashkey_init Z P HashKey) = enpassant_subkey Z P"
    "color_key (hashkey_init Z P HashKey) = turn_subkey Z P"
  by (simp_all add: hashkey_init_def Let_def HashKey_def piece_keys_ok_def subkey_simps
        xor_piece_list_board_key[OF assms] enpassant_subkey_def turn_subkey_def xor.assoc)

text \<open>The position of the constructor before the key is computed.\<close>

definition fen_state :: "string \<Rightarrow> position" where
  "fen_state fen =
     (fen_board (fen_token1 fen) (int SQ_A8) cleared_position)
       \<lparr>current_side := (if fen_token2 fen = ''w'' then WHITE else BLACK),
        castling_rights := fen_castling (fen_token3 fen) NO_CASTLING,
        enpassant_square :=
          (if fen_token4 fen = ''-'' then NO_SQUARE else notationToSquare (fen_token4 fen)),
        half_move_counter := word_of_int (fst (read_int (fen_counters fen))),
        ply_counter :=
          2 * fst (read_int (snd (read_int (fen_counters fen)))) - 1 +
          (if fen_token2 fen = ''w'' then 0 else 1)\<rparr>"

lemma Position_fen_state:
  "Position_fen Z fen =
     (fen_state fen)
       \<lparr>zobrist_hash := hashkey_init Z (fen_state fen) HashKey,
        history := (\<lambda>_. 0)(0 := get_key (hashkey_init Z (fen_state fen) HashKey)),
        history_counter := 1\<rparr>"
  by (simp add: Position_fen_def fen_state_def Let_def split_def fen_tokens
        set_enpassant_square_def cleared_position_def)

lemma fen_state_fields [simp]:
  "board (fen_state fen) = board (fen_board (fen_token1 fen) (int SQ_A8) cleared_position)"
  "piece_count (fen_state fen) = piece_count (fen_board (fen_token1 fen) (int SQ_A8) cleared_position)"
  "piece_position (fen_state fen) =
     piece_position (fen_board (fen_token1 fen) (int SQ_A8) cleared_position)"
  "by_color_bb (fen_state fen) = by_color_bb (fen_board (fen_token1 fen) (int SQ_A8) cleared_position)"
  "by_piece_kind_bb (fen_state fen) =
     by_piece_kind_bb (fen_board (fen_token1 fen) (int SQ_A8) cleared_position)"
  "current_side (fen_state fen) = (if fen_token2 fen = ''w'' then WHITE else BLACK)"
  "castling_rights (fen_state fen) = fen_castling (fen_token3 fen) NO_CASTLING"
  "enpassant_square (fen_state fen) =
     (if fen_token4 fen = ''-'' then NO_SQUARE else notationToSquare (fen_token4 fen))"
  by (simp_all add: fen_state_def)

lemma Position_fen_consistent:
  assumes "fen_board_ok (fen_token1 fen) (int SQ_A8) (\<lambda>_. NO_PIECE)"
  shows "consistent Z (Position_fen Z fen)"
proof -
  let ?B = "fen_board (fen_token1 fen) (int SQ_A8) cleared_position"
  have "fen_board_ok (fen_token1 fen) (int SQ_A8) (board cleared_position)"
    using assms by (simp add: cleared_position_def)
  then have B: "lists_ok ?B" "bitboards_ok ?B"
    using fen_board_lists[OF cleared_position_ok] by simp_all
  have l: "lists_ok (fen_state fen)"
    using B(1) lists_ok_cong[of "fen_state fen" ?B] by simp
  have b: "bitboards_ok (fen_state fen)"
    using B(2) bitboards_ok_cong[of "fen_state fen" ?B] by simp
  have "lists_ok (Position_fen Z fen) = lists_ok (fen_state fen)"
    by (rule lists_ok_cong) (simp_all add: Position_fen_state)
  moreover have "bitboards_ok (Position_fen Z fen) = bitboards_ok (fen_state fen)"
    by (rule bitboards_ok_cong) (simp_all add: Position_fen_state)
  moreover have "piece_keys_ok Z (board (Position_fen Z fen)) (zobrist_hash (Position_fen Z fen))"
    using hashkey_init_keys(1)[OF l, of Z] by (simp add: Position_fen_state)
  moreover have "state_keys_ok Z (Position_fen Z fen)"
    using hashkey_init_keys(2-4)[OF l, of Z]
    by (simp add: Position_fen_state state_keys_ok_def enpassant_subkey_def turn_subkey_def)
  ultimately show ?thesis using l b by (simp add: consistent_def)
qed

subsection \<open>Reachable positions\<close>





subsection \<open>Reading the undo record\<close>

lemma flag_bit: "(drop_bit n (x :: nat) AND 1 \<noteq> 0) = bit x n"
  by (simp add: and_one_eq bit_iff_odd_drop_bit odd_iff_mod_2_eq_one)

lemma unat_word8_less: "unat (hm :: 8 word) < 2 ^ 8"
  using unsigned_less[of hm, where ?'a = nat] by simp

lemma bit_8192: "bit (8192 :: nat) n = (n = 13)"
proof -
  have "(8192 :: nat) = 2 ^ 13" by simp
  then show ?thesis by (simp only: bit_exp_iff possible_bit_nat simp_thms)
qed

lemma create_moveinfo_fields:
  assumes c: "c < 16" and e: "e < 64 \<or> e = NO_SQUARE"
  shows "captured_piece (create_moveinfo k c e ep hm) = k"
    and "last_castling (create_moveinfo k c e ep hm) = c"
    and "last_enpassant_square (create_moveinfo k c e ep hm) = (if e = NO_SQUARE then 0 else e)"
    and "enpassant (create_moveinfo k c e ep hm) = ep"
    and "half_move_counter_of (create_moveinfo k c e ep hm) = hm"
proof -
  have c': "c < 2 ^ 4" using c by simp
  note k' = piece_kind_code_less[of k]
  note h' = unat_word8_less[of hm]
  note kc = bit_nat_small[OF k'] bit_nat_small[OF c'] bit_nat_small[OF h']
    bit_nat_large[OF k'] bit_nat_large[OF c'] bit_nat_large[OF h']
  show "captured_piece (create_moveinfo k c e ep hm) = k"
  proof -
    have "create_moveinfo k c e ep hm AND 7 = piece_kind_code k"
      unfolding create_moveinfo_def and_mask_nat
      by (rule bit_eqI)
         (use kc in \<open>auto simp add: bit_simps bit_8192\<close>)
    then show ?thesis by (simp add: captured_piece_def)
  qed
  show "last_castling (create_moveinfo k c e ep hm) = c"
    unfolding last_castling_def create_moveinfo_def and_mask_nat
    by (rule bit_eqI)
       (use kc in \<open>auto simp add: bit_simps bit_8192\<close>)
  show "last_enpassant_square (create_moveinfo k c e ep hm) = (if e = NO_SQUARE then 0 else e)"
  proof (cases "e = NO_SQUARE")
    case True
    have "take_bit 6 (drop_bit 7 (create_moveinfo k c e ep hm)) = 0"
      unfolding create_moveinfo_def using True
      by (intro bit_eqI)
         (use kc in \<open>auto simp add: bit_simps bit_8192\<close>)
    then show ?thesis using True by (simp add: last_enpassant_square_def and_mask_nat)
  next
    case False
    then have e': "e < 2 ^ 6" using e by simp
    have "take_bit 6 (drop_bit 7 (create_moveinfo k c e ep hm)) = e"
      unfolding create_moveinfo_def using False
      by (intro bit_eqI)
         (use kc bit_nat_small[OF e'] bit_nat_large[OF e'] in
           \<open>auto simp add: bit_simps bit_8192\<close>)
    then show ?thesis using False by (simp add: last_enpassant_square_def and_mask_nat)
  qed
  show "enpassant (create_moveinfo k c e ep hm) = ep"
  proof (cases "e = NO_SQUARE")
    case True
    have "bit (create_moveinfo k c e ep hm) 14 = ep"
      unfolding create_moveinfo_def
      by (use kc True in \<open>auto simp add: bit_simps bit_8192\<close>)
    then show ?thesis unfolding enpassant_def flag_bit .
  next
    case False
    then have e': "e < 2 ^ 6" using e by simp
    have "bit (create_moveinfo k c e ep hm) 14 = ep"
      unfolding create_moveinfo_def
      by (use kc bit_nat_small[OF e'] bit_nat_large[OF e'] False in
           \<open>auto simp add: bit_simps bit_8192\<close>)
    then show ?thesis unfolding enpassant_def flag_bit .
  qed
  show "half_move_counter_of (create_moveinfo k c e ep hm) = hm"
  proof -
    have "take_bit 8 (drop_bit 15 (create_moveinfo k c e ep hm)) = unat hm"
    proof (cases "e = NO_SQUARE")
      case True
      show ?thesis
        unfolding create_moveinfo_def using True
        by (intro bit_eqI)
           (use kc in
             \<open>auto simp add: bit_simps bit_8192\<close>)
    next
      case False
      then have e': "e < 2 ^ 6" using e by simp
      show ?thesis
        unfolding create_moveinfo_def using False
        by (intro bit_eqI)
           (use kc bit_nat_small[OF e'] bit_nat_large[OF e'] in \<open>auto simp add: bit_simps bit_8192\<close>)
    qed
    then show ?thesis by (simp add: half_move_counter_of_def and_mask_nat)
  qed
qed


subsection \<open>The board and the undo record after \<^verbatim>\<open>do_move\<close>\<close>

lemma do_move_info:
  "fst (do_move Z m P) =
     create_moveinfo
       (if castling m \<noteq> NO_CASTLING then NO_PIECE_KIND else get_piece_kind (board P (move_to m)))
       (castling_rights P) (enpassant_square P)
       (castling m = NO_CASTLING \<and> get_piece_kind (board P (move_from m)) = PAWN \<and>
        move_to m = enpassant_square P)
       (half_move_counter P)"
  by (simp add: do_move_def Let_def do_move_normal_fields make_piece_kind_def)

lemma do_move_castling_pieces_board:
  "board (do_move_castling_pieces Z side m P) =
     (let r = (if side = WHITE then RANK_1 else RANK_8); b = board P
      in if castling m = KING_CASTLING
         then b(make_square r FILE_E := NO_PIECE, make_square r FILE_G := b (make_square r FILE_E),
                make_square r FILE_H := NO_PIECE, make_square r FILE_F := b (make_square r FILE_H))
         else b(make_square r FILE_E := NO_PIECE, make_square r FILE_C := b (make_square r FILE_E),
                make_square r FILE_A := NO_PIECE, make_square r FILE_D := b (make_square r FILE_A)))"
  by (simp add: do_move_castling_pieces_def Let_def move_piece_fields castling_squares)

lemma undo_move_castling_board:
  "board (undo_move_castling Z side m P) =
     (let r = (if side = WHITE then RANK_1 else RANK_8); b = board P
      in if castling m = KING_CASTLING
         then b(make_square r FILE_G := NO_PIECE, make_square r FILE_E := b (make_square r FILE_G),
                make_square r FILE_F := NO_PIECE, make_square r FILE_H := b (make_square r FILE_F))
         else b(make_square r FILE_C := NO_PIECE, make_square r FILE_E := b (make_square r FILE_C),
                make_square r FILE_D := NO_PIECE, make_square r FILE_A := b (make_square r FILE_D)))"
  by (simp add: undo_move_castling_def Let_def move_piece_fields castling_squares)

lemma do_move_castling_board:
  "board (do_move_castling Z side m P) = board (do_move_castling_pieces Z side m P)"
  by (simp add: do_move_castling_def Let_def set_enpassant_square_def
        do_move_castling_pieces_board)

lemma do_move_enpassant_board:
  "board (do_move_enpassant Z side m P) =
     (board P)(move_from m := NO_PIECE, move_to m := board P (move_from m),
               square_behind side (move_to m) := NO_PIECE)"
  by (simp add: do_move_enpassant_def remove_piece_fields move_piece_fields)

lemma do_move_pieces_board:
  assumes "move_from m \<noteq> move_to m"
  shows "board (do_move_pieces Z side m c P) =
     (board P)(move_from m := NO_PIECE,
               move_to m := (if promotion m \<noteq> NO_PIECE_KIND then make_piece side (promotion m)
                             else board P (move_from m)))"
  using assms
  by (auto simp add: do_move_pieces_def Let_def remove_piece_fields add_piece_fields
        move_piece_fields fun_eq_iff)

lemma do_move_board:
  "castling m \<noteq> NO_CASTLING \<Longrightarrow>
     board (snd (do_move Z m P)) = board (do_move_castling_pieces Z (current_side P) m P)"
  "castling m = NO_CASTLING \<Longrightarrow>
   get_piece_kind (board P (move_from m)) = PAWN \<and> move_to m = enpassant_square P \<Longrightarrow>
     board (snd (do_move Z m P)) =
       (board P)(move_from m := NO_PIECE, move_to m := board P (move_from m),
                 square_behind (current_side P) (move_to m) := NO_PIECE)"
  "castling m = NO_CASTLING \<Longrightarrow>
   \<not> (get_piece_kind (board P (move_from m)) = PAWN \<and> move_to m = enpassant_square P) \<Longrightarrow>
   move_from m \<noteq> move_to m \<Longrightarrow>
     board (snd (do_move Z m P)) =
       (board P)(move_from m := NO_PIECE,
                 move_to m := (if promotion m \<noteq> NO_PIECE_KIND
                               then make_piece (current_side P) (promotion m)
                               else board P (move_from m)))"
proof -
  show "castling m \<noteq> NO_CASTLING \<Longrightarrow>
     board (snd (do_move Z m P)) = board (do_move_castling_pieces Z (current_side P) m P)"
    by (simp add: do_move_def Let_def do_move_castling_board do_move_castling_pieces_board)
  show "castling m = NO_CASTLING \<Longrightarrow>
   get_piece_kind (board P (move_from m)) = PAWN \<and> move_to m = enpassant_square P \<Longrightarrow>
     board (snd (do_move Z m P)) =
       (board P)(move_from m := NO_PIECE, move_to m := board P (move_from m),
                 square_behind (current_side P) (move_to m) := NO_PIECE)"
    by (simp add: do_move_def Let_def do_move_normal_def do_move_enpassant_board)
  show "castling m = NO_CASTLING \<Longrightarrow>
   \<not> (get_piece_kind (board P (move_from m)) = PAWN \<and> move_to m = enpassant_square P) \<Longrightarrow>
   move_from m \<noteq> move_to m \<Longrightarrow>
     board (snd (do_move Z m P)) =
       (board P)(move_from m := NO_PIECE,
                 move_to m := (if promotion m \<noteq> NO_PIECE_KIND
                               then make_piece (current_side P) (promotion m)
                               else board P (move_from m)))"
    by (auto simp add: do_move_def Let_def do_move_normal_def do_move_pieces_board)
qed

lemma undo_move_normal_board:
  "board (undo_move_normal Z side m mi P) =
     (let ba = (if enpassant mi
                then (board P)(square_behind side (move_to m) := make_piece (color_not side) PAWN)
                else board P);
          bb = (if promotion m \<noteq> NO_PIECE_KIND
                then ba(move_from m := make_piece side PAWN, move_to m := NO_PIECE)
                else ba(move_to m := NO_PIECE, move_from m := ba (move_to m)))
      in if captured_piece mi \<noteq> NO_PIECE_KIND
         then bb(move_to m := make_piece (color_not side) (captured_piece mi)) else bb)"
  by (simp add: undo_move_normal_def Let_def add_piece_fields remove_piece_fields
        move_piece_fields)

lemma undo_move_board:
  "board (undo_move Z m mi P) =
     (if castling m \<noteq> NO_CASTLING
      then board (undo_move_castling Z (color_not (current_side P)) m P)
      else board (undo_move_normal Z (color_not (current_side P)) m mi P))"
  by (simp add: undo_move_def Let_def undo_move_castling_board undo_move_normal_board)

text \<open>What a move that \<^verbatim>\<open>do_move\<close> accepts gives.\<close>

lemma move_ok_normalD:
  assumes "move_ok P m" "castling m = NO_CASTLING"
  shows "board P (move_from m) \<noteq> NO_PIECE"
    and "get_color (board P (move_from m)) = current_side P"
    and "if get_piece_kind (board P (move_from m)) = PAWN \<and> move_to m = enpassant_square P
         then enpassant_ok (board P) (current_side P) m
         else (board P (move_to m) = NO_PIECE \<or>
               get_color (board P (move_to m)) = color_not (current_side P)) \<and>
              (promotion m \<noteq> NO_PIECE_KIND \<longrightarrow> get_piece_kind (board P (move_from m)) = PAWN)"
proof -
  note ok = assms(1)[unfolded move_ok_normal[OF assms(2)]]
  show "board P (move_from m) \<noteq> NO_PIECE" by (rule conjunct1[OF ok])
  show "get_color (board P (move_from m)) = current_side P"
    by (rule conjunct1[OF conjunct2[OF ok]])
  show "if get_piece_kind (board P (move_from m)) = PAWN \<and> move_to m = enpassant_square P
        then enpassant_ok (board P) (current_side P) m
        else (board P (move_to m) = NO_PIECE \<or>
              get_color (board P (move_to m)) = color_not (current_side P)) \<and>
             (promotion m \<noteq> NO_PIECE_KIND \<longrightarrow> get_piece_kind (board P (move_from m)) = PAWN)"
    by (rule conjunct2[OF conjunct2[OF ok]])
qed

lemma move_ok_enpassantD:
  assumes "move_ok P m" "castling m = NO_CASTLING"
    "get_piece_kind (board P (move_from m)) = PAWN \<and> move_to m = enpassant_square P"
  shows "enpassant_ok (board P) (current_side P) m"
  using move_ok_normalD(3)[OF assms(1,2)] unfolding if_P[OF assms(3)] .

lemma move_ok_captureD:
  assumes "move_ok P m" "castling m = NO_CASTLING"
    "\<not> (get_piece_kind (board P (move_from m)) = PAWN \<and> move_to m = enpassant_square P)"
  shows "board P (move_to m) = NO_PIECE \<or>
         get_color (board P (move_to m)) = color_not (current_side P)"
    and "promotion m \<noteq> NO_PIECE_KIND \<Longrightarrow> get_piece_kind (board P (move_from m)) = PAWN"
proof -
  note r = move_ok_normalD(3)[OF assms(1,2), unfolded if_not_P[OF assms(3)]]
  show "board P (move_to m) = NO_PIECE \<or>
        get_color (board P (move_to m)) = color_not (current_side P)"
    by (rule conjunct1[OF r])
  show "get_piece_kind (board P (move_from m)) = PAWN" if "promotion m \<noteq> NO_PIECE_KIND"
    using conjunct2[OF r] that by (rule mp)
qed

lemma move_ok_distinct:
  assumes "move_ok P m" "castling m = NO_CASTLING"
  shows "move_from m \<noteq> move_to m"
proof
  assume e: "move_from m = move_to m"
  note ok = move_ok_normalD[OF assms]
  show False
  proof (cases "get_piece_kind (board P (move_from m)) = PAWN \<and> move_to m = enpassant_square P")
    case True
    have "board P (move_to m) = NO_PIECE"
      using move_ok_enpassantD[OF assms True] by (simp add: enpassant_ok_def)
    then show False using ok(1) unfolding e by simp
  next
    case False
    have "board P (move_to m) = NO_PIECE \<or>
          get_color (board P (move_to m)) = color_not (current_side P)"
      by (rule move_ok_captureD(1)[OF assms False])
    then show False using ok(1,2) unfolding e by auto
  qed
qed


subsection \<open>\<^verbatim>\<open>do_move\<close> followed by \<^verbatim>\<open>undo_move\<close>\<close>

definition do_undo :: "zobrist_table \<Rightarrow> move \<Rightarrow> position \<Rightarrow> position" where
  "do_undo Z m P = undo_move Z m (fst (do_move Z m P)) (snd (do_move Z m P))"

lemma make_piece_of_piece: "p \<noteq> NO_PIECE \<Longrightarrow> make_piece (get_color p) (get_piece_kind p) = p"
  by (cases p) simp_all

lemma kind_eq_none [simp]: "(get_piece_kind p = NO_PIECE_KIND) = (p = NO_PIECE)"
  by (cases p) simp_all

lemma color_not_twice [simp]: "color_not (color_not c) = c"
  by (cases c) simp_all

lemma castling_round_trip:
  assumes "castling_ok b side m"
    "board Q = board (do_move_castling_pieces Z side m P)" "board P = b"
  shows "board (undo_move_castling Z side m Q) = b"
  using assms
  by (cases side; cases "castling m = KING_CASTLING")
     (auto simp add: undo_move_castling_board do_move_castling_pieces_board castling_ok_def
        Let_def castling_squares fun_eq_iff)

lemma do_undo_board:
  assumes ok: "move_ok P m" and c: "castling_rights P < 16"
    and e: "enpassant_square P < 64 \<or> enpassant_square P = NO_SQUARE"
  shows "board (do_undo Z m P) = board P"
proof (cases "castling m \<noteq> NO_CASTLING")
  case True
  have "castling_ok (board P) (current_side P) m"
    using ok True by (simp add: move_ok_castling)
  then have "board (undo_move_castling Z (current_side P) m (snd (do_move Z m P))) = board P"
    by (rule castling_round_trip) (simp_all add: do_move_board(1)[OF True])
  then show ?thesis
    using True by (simp add: do_undo_def undo_move_board do_move_current_side)
next
  case False
  then have n: "castling m = NO_CASTLING" by simp
  note info = create_moveinfo_fields[OF c e]
  note full = move_ok_normalD(1)[OF ok n] and own = move_ok_normalD(2)[OF ok n]
  note ft = move_ok_distinct[OF ok n]
  have side: "color_not (current_side (snd (do_move Z m P))) = current_side P"
    by (cases "current_side P") (simp_all add: do_move_current_side)
  show ?thesis
  proof (cases "get_piece_kind (board P (move_from m)) = PAWN \<and> move_to m = enpassant_square P")
    case True
    note ep = move_ok_enpassantD[OF ok n True]
    have empty: "board P (move_to m) = NO_PIECE"
      and promo: "promotion m = NO_PIECE_KIND"
      and behind: "board P (square_behind (current_side P) (move_to m)) =
                   make_piece (color_not (current_side P)) PAWN"
      using ep by (simp_all add: enpassant_ok_def)
    have nb: "square_behind (current_side P) (move_to m) \<noteq> move_to m"
      "square_behind (current_side P) (move_to m) \<noteq> move_from m"
      using empty behind own full by (auto simp add: eq_commute[of NO_PIECE])
    have cap: "captured_piece (fst (do_move Z m P)) = NO_PIECE_KIND"
      and flag: "enpassant (fst (do_move Z m P))"
      using True n empty by (simp_all add: do_move_info info)
    show ?thesis
      unfolding do_undo_def undo_move_board undo_move_normal_board side
        do_move_board(2)[OF n True] cap
      using n flag promo empty behind nb ft
      by (auto simp add: Let_def fun_eq_iff)
  next
    case False
    note capt = move_ok_captureD[OF ok n False]
    have cap: "captured_piece (fst (do_move Z m P)) = get_piece_kind (board P (move_to m))"
      and flag: "\<not> enpassant (fst (do_move Z m P))"
      using False n by (simp_all add: do_move_info info)
    have target: "board P (move_to m) \<noteq> NO_PIECE \<Longrightarrow>
        make_piece (color_not (current_side P)) (get_piece_kind (board P (move_to m))) =
        board P (move_to m)"
      using capt(1) make_piece_of_piece[of "board P (move_to m)"] by auto
    have pawn: "promotion m \<noteq> NO_PIECE_KIND \<Longrightarrow>
        make_piece (current_side P) PAWN = board P (move_from m)"
      using capt(2) make_piece_of_piece[OF full] own by auto
    show ?thesis
      unfolding do_undo_def undo_move_board undo_move_normal_board side
        do_move_board(3)[OF n False ft] cap
      using n flag ft target pawn
      by (auto simp add: Let_def fun_eq_iff)
  qed
qed

lemma do_move_undo_ok:
  assumes ok: "move_ok P m" and c: "castling_rights P < 16"
    and e: "enpassant_square P < 64 \<or> enpassant_square P = NO_SQUARE"
  shows "undo_ok (snd (do_move Z m P)) m (fst (do_move Z m P))"
proof (cases "castling m \<noteq> NO_CASTLING")
  case True
  have "castling_ok (board P) (current_side P) m"
    using ok True by (simp add: move_ok_castling)
  then have "undo_castling_ok (board (do_move_castling_pieces Z (current_side P) m P))
               (current_side P) m"
    by (cases "current_side P"; cases "castling m = KING_CASTLING")
       (auto simp add: castling_ok_def undo_castling_ok_def do_move_castling_pieces_board Let_def
          castling_squares)
  then show ?thesis
    using True
    by (simp add: undo_ok_def Let_def do_move_board(1)[OF True] do_move_current_side)
next
  case False
  then have n: "castling m = NO_CASTLING" by simp
  note info = create_moveinfo_fields[OF c e]
  note full = move_ok_normalD(1)[OF ok n] and own = move_ok_normalD(2)[OF ok n]
  note ft = move_ok_distinct[OF ok n]
  have side: "color_not (current_side (snd (do_move Z m P))) = current_side P"
    by (cases "current_side P") (simp_all add: do_move_current_side)
  show ?thesis
  proof (cases "get_piece_kind (board P (move_from m)) = PAWN \<and> move_to m = enpassant_square P")
    case True
    note ep = move_ok_enpassantD[OF ok n True]
    have empty: "board P (move_to m) = NO_PIECE"
      and rank: "if current_side P = WHITE then 8 \<le> move_to m else move_to m < 56"
      and behind: "board P (square_behind (current_side P) (move_to m)) =
                   make_piece (color_not (current_side P)) PAWN"
      using ep by (simp_all add: enpassant_ok_def)
    have nb: "square_behind (current_side P) (move_to m) \<noteq> move_to m"
      "square_behind (current_side P) (move_to m) \<noteq> move_from m"
      using empty behind own full by (auto simp add: eq_commute[of NO_PIECE])
    show ?thesis
      unfolding undo_ok_def Let_def side do_move_board(2)[OF n True]
      using n full ft nb rank by simp
  next
    case False
    have flag: "\<not> enpassant (fst (do_move Z m P))"
      using False n by (simp add: do_move_info info)
    have "(if promotion m \<noteq> NO_PIECE_KIND then make_piece (current_side P) (promotion m)
           else board P (move_from m)) \<noteq> NO_PIECE"
      using full by simp
    then show ?thesis
      unfolding undo_ok_def Let_def side do_move_board(3)[OF n False ft]
      using n flag ft by simp
  qed
qed

lemma do_undo_consistent:
  assumes "consistent Z P" "move_ok P m" "castling_rights P < 16"
    "enpassant_square P < 64 \<or> enpassant_square P = NO_SQUARE"
  shows "consistent Z (do_undo Z m P)"
  unfolding do_undo_def
  by (intro undo_move_consistent do_move_consistent do_move_undo_ok assms)


subsection \<open>What the board determines in a consistent position\<close>

lemma bitboards_unique:
  assumes "bitboards_ok P" "bitboards_ok Q" "board P = board Q"
  shows "by_color_bb P = by_color_bb Q" and "by_piece_kind_bb P = by_piece_kind_bb Q"
proof -
  show "by_color_bb P = by_color_bb Q"
  proof (rule ext, rule bit_eqI)
    fix c n
    assume "possible_bit TYPE(64 word) n"
    then have "n < 64" by (simp add: possible_bit_word)
    then show "bit (by_color_bb P c) n = bit (by_color_bb Q c) n"
      using assms by (simp add: bitboards_ok_def)
  qed
  show "by_piece_kind_bb P = by_piece_kind_bb Q"
  proof (rule ext)
    fix k
    show "by_piece_kind_bb P k = by_piece_kind_bb Q k"
    proof (cases "k = NO_PIECE_KIND")
      case True
      then show ?thesis using assms by (simp add: bitboards_ok_def)
    next
      case False
      show ?thesis
      proof (rule bit_eqI)
        fix n
        assume "possible_bit TYPE(64 word) n"
        then have "n < 64" by (simp add: possible_bit_word)
        then show "bit (by_piece_kind_bb P k) n = bit (by_piece_kind_bb Q k) n"
          using assms False by (simp add: bitboards_ok_def)
      qed
    qed
  qed
qed

lemma lists_count:
  assumes "lists_ok P" "p \<noteq> NO_PIECE"
  shows "piece_count P p = card {sq. sq < 64 \<and> board P sq = p}"
proof -
  have inj: "inj_on (piece_position P p) {..< piece_count P p}"
    and img: "piece_position P p ` {..< piece_count P p} = {sq. sq < 64 \<and> board P sq = p}"
    using assms by (simp_all add: lists_ok_def)
  show ?thesis
    using card_image[OF inj] unfolding img by simp
qed

lemma lists_unique:
  assumes "lists_ok P" "lists_ok Q" "board P = board Q" "p \<noteq> NO_PIECE"
  shows "piece_count P p = piece_count Q p"
    and "piece_position P p ` {..< piece_count P p} = piece_position Q p ` {..< piece_count Q p}"
proof -
  show "piece_count P p = piece_count Q p"
    using lists_count[OF assms(1,4)] lists_count[OF assms(2,4)] assms(3) by simp
  show "piece_position P p ` {..< piece_count P p} = piece_position Q p ` {..< piece_count Q p}"
    using assms by (simp add: lists_ok_def)
qed

lemma piece_keys_unique:
  "piece_keys_ok Z b h \<Longrightarrow> piece_keys_ok Z b h' \<Longrightarrow>
     pawn_key h = pawn_key h' \<and> piece_key h = piece_key h'"
  by (simp add: piece_keys_ok_def)

subsection \<open>The state after \<^verbatim>\<open>do_move\<close> and \<^verbatim>\<open>undo_move\<close>\<close>

lemma do_undo_state:
  assumes c: "castling_rights P < 16"
    and e: "enpassant_square P < 64 \<or> enpassant_square P = NO_SQUARE"
  shows "current_side (do_undo Z m P) = current_side P"
    and "castling_rights (do_undo Z m P) = castling_rights P"
    and "half_move_counter (do_undo Z m P) = half_move_counter P"
    and "ply_counter (do_undo Z m P) = ply_counter P"
    and "history_counter (do_undo Z m P) = history_counter P"
    and "enpassant_square (do_undo Z m P) =
           (if enpassant_square P = NO_SQUARE then 0 else enpassant_square P)"
    and "castling_key (zobrist_hash (do_undo Z m P)) = castling_hash Z (castling_rights P)"
    and "color_key (zobrist_hash (do_undo Z m P)) = color_key (zobrist_hash P)"
    and "enpassant_key (zobrist_hash (do_undo Z m P)) =
           HASH_ENPASSANT Z
             (file_of (if enpassant_square P = NO_SQUARE then 0 else enpassant_square P))"
proof -
  note info = create_moveinfo_fields[OF c e]
  show "current_side (do_undo Z m P) = current_side P"
    by (simp add: do_undo_def undo_move_state_fields do_move_current_side)
  show "castling_rights (do_undo Z m P) = castling_rights P"
    by (simp add: do_undo_def undo_move_state_fields do_move_info info)
  show "half_move_counter (do_undo Z m P) = half_move_counter P"
    by (simp add: do_undo_def undo_move_state_fields do_move_info info)
  show "ply_counter (do_undo Z m P) = ply_counter P"
    by (simp add: do_undo_def undo_move_state_fields do_move_def Let_def do_move_normal_fields)
  show "history_counter (do_undo Z m P) = history_counter P"
    by (simp add: do_undo_def undo_move_state_fields do_move_history_counter)
  show "enpassant_square (do_undo Z m P) =
           (if enpassant_square P = NO_SQUARE then 0 else enpassant_square P)"
    by (simp add: do_undo_def undo_move_state_fields do_move_info info)
  show "castling_key (zobrist_hash (do_undo Z m P)) = castling_hash Z (castling_rights P)"
    by (simp add: do_undo_def undo_move_state_fields do_move_info info)
  show "color_key (zobrist_hash (do_undo Z m P)) = color_key (zobrist_hash P)"
    by (simp add: do_undo_def undo_move_state_fields do_move_state xor.assoc)
  show "enpassant_key (zobrist_hash (do_undo Z m P)) =
           HASH_ENPASSANT Z
             (file_of (if enpassant_square P = NO_SQUARE then 0 else enpassant_square P))"
    by (simp add: do_undo_def undo_move_state_fields do_move_info info)
qed

text \<open>\<^verbatim>\<open>do_move\<close> followed by \<^verbatim>\<open>undo_move\<close> with the undo record of the move restores
  the board, the occupancy bitboards, the piece counts, the side to move, the castling
  rights, the half-move counter, the ply counter, the history count and the piece, pawn,
  castling and colour subkeys; every piece list holds the same squares as before, in an
  order that may differ; where the en-passant square was set before the move, the
  en-passant square, its subkey and so the whole key are restored too. The position is
  consistent, its castling rights fit the four bits and its en-passant square the six
  bits that the undo record has for them, and the move is one that the piece operations
  accept.\<close>

lemma do_undo_restores:
  assumes "consistent Z P" and "move_ok P m" and "castling_rights P < 16"
    and "enpassant_square P < 64 \<or> enpassant_square P = NO_SQUARE"
  shows "board (do_undo Z m P) = board P \<and>
         by_color_bb (do_undo Z m P) = by_color_bb P \<and>
         by_piece_kind_bb (do_undo Z m P) = by_piece_kind_bb P \<and>
         (\<forall>p. p \<noteq> NO_PIECE \<longrightarrow>
            piece_count (do_undo Z m P) p = piece_count P p \<and>
            piece_position (do_undo Z m P) p ` {..< piece_count (do_undo Z m P) p} =
              piece_position P p ` {..< piece_count P p}) \<and>
         current_side (do_undo Z m P) = current_side P \<and>
         castling_rights (do_undo Z m P) = castling_rights P \<and>
         half_move_counter (do_undo Z m P) = half_move_counter P \<and>
         ply_counter (do_undo Z m P) = ply_counter P \<and>
         history_counter (do_undo Z m P) = history_counter P \<and>
         piece_key (zobrist_hash (do_undo Z m P)) = piece_key (zobrist_hash P) \<and>
         pawn_key (zobrist_hash (do_undo Z m P)) = pawn_key (zobrist_hash P) \<and>
         castling_key (zobrist_hash (do_undo Z m P)) = castling_key (zobrist_hash P) \<and>
         color_key (zobrist_hash (do_undo Z m P)) = color_key (zobrist_hash P) \<and>
         (enpassant_square P \<noteq> NO_SQUARE \<longrightarrow>
            enpassant_square (do_undo Z m P) = enpassant_square P \<and>
            zobrist_hash (do_undo Z m P) = zobrist_hash P \<and>
            hash (do_undo Z m P) = hash P)"
proof -
  let ?Q = "do_undo Z m P"
  note b = do_undo_board[OF assms(2,3,4), of Z]
  note Q = do_undo_consistent[OF assms]
  note st = do_undo_state[OF assms(3,4), of Z m]
  have P': "lists_ok P" "bitboards_ok P" "piece_keys_ok Z (board P) (zobrist_hash P)"
    "state_keys_ok Z P"
    using assms(1) by (simp_all add: consistent_def)
  have Q': "lists_ok ?Q" "bitboards_ok ?Q" "piece_keys_ok Z (board P) (zobrist_hash ?Q)"
    using Q b by (simp_all add: consistent_def)
  note bb = bitboards_unique[OF Q'(2) P'(2) b]
  have lists: "\<forall>p. p \<noteq> NO_PIECE \<longrightarrow>
            piece_count ?Q p = piece_count P p \<and>
            piece_position ?Q p ` {..< piece_count ?Q p} =
              piece_position P p ` {..< piece_count P p}"
    using lists_unique[OF Q'(1) P'(1) b] by blast
  note pk = piece_keys_unique[OF Q'(3) P'(3)]
  have ck: "castling_key (zobrist_hash ?Q) = castling_key (zobrist_hash P)"
    using st(7) P'(4) by (simp add: state_keys_ok_def)
  have ep: "enpassant_square ?Q = enpassant_square P \<and> zobrist_hash ?Q = zobrist_hash P \<and>
            hash ?Q = hash P" if set: "enpassant_square P \<noteq> NO_SQUARE"
  proof -
    have 1: "enpassant_square ?Q = enpassant_square P" using st(6) set by simp
    have "enpassant_key (zobrist_hash ?Q) = enpassant_key (zobrist_hash P)"
      using st(9) set P'(4) by (simp add: state_keys_ok_def)
    then have 2: "zobrist_hash ?Q = zobrist_hash P"
      using pk ck st(8) by (intro hashkey.equality) simp_all
    show ?thesis using 1 2 by (simp add: hash_def)
  qed
  show ?thesis
    using b bb lists st(1-5) pk ck st(8) ep by (simp only: simp_thms) blast
qed

text \<open>Where the en-passant square was unset before the move, \<^verbatim>\<open>undo_move\<close> leaves
  square 0 in its place: \<^verbatim>\<open>last_enpassant_square\<close> reads a six-bit field, in which
  \<^verbatim>\<open>create_moveinfo\<close> has stored nothing.\<close>

lemma do_undo_enpassant_square_unset:
  assumes "castling_rights P < 16" "enpassant_square P = NO_SQUARE"
  shows "enpassant_square (do_undo Z m P) = 0"
  using do_undo_state(6)[of P Z m] assms by simp


subsection \<open>The start position and the move e2e4\<close>

definition MOVE_E2E4 :: move where
  "MOVE_E2E4 = create_move 12 28"

lemma e2e4:
  "castling MOVE_E2E4 = NO_CASTLING" "move_from MOVE_E2E4 = 12" "move_to MOVE_E2E4 = 28"
  "promotion MOVE_E2E4 = NO_PIECE_KIND"
  by (simp_all add: MOVE_E2E4_def create_move_def castling_def move_from_def move_to_def
        promotion_def PieceKind_def Let_def castling_names)

lemma startpos_state:
  "current_side (Position_fen Z STARTPOS_FEN) = WHITE"
  "castling_rights (Position_fen Z STARTPOS_FEN) = 15"
  "enpassant_square (Position_fen Z STARTPOS_FEN) = NO_SQUARE"
  by (simp_all add: Position_fen_fields startpos_tokens castling_names)

lemma startpos_fen_board_ok:
  "fen_board_ok (fen_token1 STARTPOS_FEN) (int SQ_A8) (\<lambda>_. NO_PIECE)"
  by (simp add: startpos_tokens SQ_A8_def char_to_piece_def)

lemma startpos_consistent: "consistent Z (Position_fen Z STARTPOS_FEN)"
  by (rule Position_fen_consistent[OF startpos_fen_board_ok])

lemma startpos_squares:
  "board (Position_fen Z STARTPOS_FEN) 12 = W_PAWN"
  "board (Position_fen Z STARTPOS_FEN) 28 = NO_PIECE"
  "board (Position_fen Z STARTPOS_FEN) 27 = NO_PIECE"
  "board (Position_fen Z STARTPOS_FEN) 29 = NO_PIECE"
  by (simp_all add: startpos_board)

lemma startpos_e2e4_ok: "move_ok (Position_fen Z STARTPOS_FEN) MOVE_E2E4"
  by (simp add: move_ok_def Let_def e2e4 startpos_squares startpos_state NO_SQUARE_def)







subsection \<open>The en-passant square that \<^verbatim>\<open>undo_move\<close> puts back\<close>

lemma do_undo_hash_unset:
  assumes "consistent Z P" "move_ok P m" "castling_rights P < 16"
    "enpassant_square P = NO_SQUARE"
  shows "hash (do_undo Z m P) = hash P XOR HASH_ENPASSANT Z 0"
proof -
  have e: "enpassant_square P < 64 \<or> enpassant_square P = NO_SQUARE" using assms(4) by simp
  note Q = do_undo_consistent[OF assms(1,2,3) e]
  note b = do_undo_board[OF assms(2,3) e, of Z]
  note st = do_undo_state[OF assms(3) e, of Z m]
  show ?thesis
    unfolding consistent_hash[OF Q] consistent_hash[OF assms(1)]
    using b st(1,2,6) assms(4)
    by (simp add: enpassant_subkey_def turn_subkey_def NO_SQUARE_def file_of_def xor.assoc
          xor.left_commute xor.commute)
qed

lemma xor_changes: "(h :: 64 word) \<noteq> 0 \<Longrightarrow> a XOR h \<noteq> a"
proof
  assume h: "h \<noteq> 0" and e: "a XOR h = a"
  have "h = a XOR (a XOR h)" by (simp add: xor.assoc[symmetric])
  also have "\<dots> = 0" unfolding e by simp
  finally show False using h by simp
qed

text \<open>
  C1. \<^verbatim>\<open>do_move\<close> followed by \<^verbatim>\<open>undo_move\<close> does not restore a position whose
  en-passant square was \<^verbatim>\<open>NO_SQUARE\<close>: at the start position and e2e4 the en-passant
  square comes back as \<^verbatim>\<open>SQ_A1\<close>, the key holds the subkey of the a-file, and
  \<^verbatim>\<open>operator==\<close> tells the position from the one before the move. Every other field
  of the claim is restored (lemma \<open>do_undo_restores\<close>).
\<close>

theorem undo_move_loses_unset_enpassant_square:
  "enpassant_square (Position_fen sample_table STARTPOS_FEN) = NO_SQUARE \<and>
   enpassant_square (do_undo sample_table MOVE_E2E4 (Position_fen sample_table STARTPOS_FEN)) =
     SQ_A1 \<and>
   hash (do_undo sample_table MOVE_E2E4 (Position_fen sample_table STARTPOS_FEN)) \<noteq>
     hash (Position_fen sample_table STARTPOS_FEN) \<and>
   \<not> position_eq (do_undo sample_table MOVE_E2E4 (Position_fen sample_table STARTPOS_FEN))
        (Position_fen sample_table STARTPOS_FEN)"
proof -
  let ?P = "Position_fen sample_table STARTPOS_FEN"
  have c: "castling_rights ?P < 16" by (simp add: startpos_state)
  have 1: "enpassant_square (do_undo sample_table MOVE_E2E4 ?P) = SQ_A1"
    using do_undo_enpassant_square_unset[OF c startpos_state(3)] by (simp add: SQ_A1_def)
  have "hash (do_undo sample_table MOVE_E2E4 ?P) = hash ?P XOR HASH_ENPASSANT sample_table 0"
    by (rule do_undo_hash_unset[OF startpos_consistent startpos_e2e4_ok c startpos_state(3)])
  moreover have "HASH_ENPASSANT sample_table 0 \<noteq> 0" by (simp add: sample_table_def)
  ultimately have 2: "hash (do_undo sample_table MOVE_E2E4 ?P) \<noteq> hash ?P"
    using xor_changes[of "HASH_ENPASSANT sample_table 0" "hash ?P"] by simp
  then have 3: "\<not> position_eq (do_undo sample_table MOVE_E2E4 ?P) ?P"
    by (simp add: position_eq_def hash_def)
  show ?thesis using 1 2 3 by (simp add: startpos_state)
qed


section \<open>Static exchange evaluation\<close>


subsection \<open>\<^verbatim>\<open>Position::square_attackers\<close>\<close>


subsection \<open>\<^verbatim>\<open>Position::see\<close>\<close>










subsection \<open>The swap-off on attackers that are fixed at the start\<close>









subsection \<open>\<^verbatim>\<open>see\<close> is the swap-off on the attackers fixed at the start\<close>














subsection \<open>The swap-off with x-ray attackers\<close>











subsection \<open>Doubled rooks\<close>





















end
